theory Spec2Isabelle
  imports Complex_Main "HOL-Library.Multiset"
begin

section \<open>Overview\<close>

text \<open>
  A shallow embedding of the batch orchestration of the whisper-transcriber repository:
  of \<^verbatim>\<open>src/BatchProcessor.js\<close> the constructor, \<^verbatim>\<open>processDirectory\<close>,
  \<^verbatim>\<open>processFiles\<close>, \<^verbatim>\<open>processFile\<close>, \<^verbatim>\<open>createBatches\<close>,
  \<^verbatim>\<open>saveReport\<close>, \<^verbatim>\<open>generateSummary\<close> and \<^verbatim>\<open>mergeTranscripts\<close>, and of
  \<^verbatim>\<open>src/WhisperTranscriber.js\<close> what these call: \<^verbatim>\<open>transcribe\<close>,
  \<^verbatim>\<open>getAudioInfo\<close>, \<^verbatim>\<open>formatDuration\<close> and \<^verbatim>\<open>formatFileSize\<close>.

  An asynchronous call is modelled by its outcome, a value of \<open>error + 'a\<close> with
  \<open>Inl\<close> for a rejection; a \<^verbatim>\<open>throw\<close> is \<open>Inl\<close> as well, and a
  \<^verbatim>\<open>try\<close>/\<^verbatim>\<open>catch\<close> is a case distinction on it.  What the program gets from
  outside (the external tools, the file system, the clock, library functions, the order in
  which concurrent jobs finish) is a parameter, the \<open>world\<close>.  Writing to the console is
  left out.
\<close>

section \<open>JavaScript values, numbers and errors\<close>

text \<open>
  The repository is JavaScript (Node.js).  A number is an IEEE double; the model keeps the
  four kinds of double that the code can tell apart and idealises a finite double as the
  rational it denotes (the rounding of double arithmetic is not modelled, and neither is the
  sign of zero: the only divisor of the code is a difference of two \<^verbatim>\<open>Date.now()\<close>
  readings over 1000 or a positive constant, which is never \<^verbatim>\<open>-0\<close>).
\<close>

datatype jsnum = Num rat | PosInf | NegInf | NaN

text \<open>
  What \<^verbatim>\<open>JSON.parse\<close> returns, with \<^verbatim>\<open>undefined\<close> added for
  the value of a missing property or option.  An object is its list of properties.
\<close>

datatype jsval =
    JUndefined
  | JNull
  | JBool bool
  | JNumber jsnum
  | JString string
  | JArray "jsval list"
  | JObject "(string \<times> jsval) list"

text \<open>A thrown value: every throw of the code is an \<^verbatim>\<open>Error\<close> object, read only
  through its \<^verbatim>\<open>message\<close>.\<close>

datatype error = Error string | TypeError string | SyntaxError string

fun message :: "error \<Rightarrow> string" where
  "message (Error m) = m"
| "message (TypeError m) = m"
| "message (SyntaxError m) = m"

text \<open>JavaScript truthiness, as used by \<^verbatim>\<open>x ? a : b\<close>, \<^verbatim>\<open>x || d\<close> and
  \<^verbatim>\<open>if (x)\<close>.\<close>

fun truthy :: "jsval \<Rightarrow> bool" where
  "truthy JUndefined = False"
| "truthy JNull = False"
| "truthy (JBool b) = b"
| "truthy (JNumber n) = (n \<noteq> NaN \<and> n \<noteq> Num 0)"
| "truthy (JString s) = (s \<noteq> [])"
| "truthy (JArray xs) = True"
| "truthy (JObject kvs) = True"

text \<open>
  Reading a property \<^verbatim>\<open>v.k\<close>.  It throws a TypeError on \<^verbatim>\<open>null\<close> and
  \<^verbatim>\<open>undefined\<close>, looks the key up in an object, and is \<^verbatim>\<open>undefined\<close> on
  every other value: the keys the code reads (\<^verbatim>\<open>streams\<close>, \<^verbatim>\<open>format\<close>,
  \<^verbatim>\<open>codec_type\<close>, \<^verbatim>\<open>codec_name\<close>, \<^verbatim>\<open>sample_rate\<close>,
  \<^verbatim>\<open>channels\<close>, \<^verbatim>\<open>duration\<close>, \<^verbatim>\<open>bit_rate\<close>, \<^verbatim>\<open>size\<close>,
  \<^verbatim>\<open>text\<close>, \<^verbatim>\<open>language\<close>) are not built-in properties of strings, numbers,
  booleans or arrays.
\<close>

fun getProp :: "jsval \<Rightarrow> string \<Rightarrow> error + jsval" where
  "getProp JUndefined k = Inl (TypeError (''Cannot read properties of undefined (reading '' @ k @ '')''))"
| "getProp JNull k = Inl (TypeError (''Cannot read properties of null (reading '' @ k @ '')''))"
| "getProp (JObject kvs) k = Inr (case map_of kvs k of None \<Rightarrow> JUndefined | Some v \<Rightarrow> v)"
| "getProp v k = Inr JUndefined"

text \<open>Optional chaining \<^verbatim>\<open>v?.k\<close>: \<^verbatim>\<open>undefined\<close> where \<^verbatim>\<open>v.k\<close> would throw.\<close>

definition getPropOpt :: "jsval \<Rightarrow> string \<Rightarrow> jsval" where
  "getPropOpt v k = (case getProp v k of Inl e \<Rightarrow> JUndefined | Inr x \<Rightarrow> x)"

subsection \<open>Arithmetic on numbers\<close>

text \<open>\<^verbatim>\<open>a / b\<close>.\<close>

fun js_div :: "jsnum \<Rightarrow> jsnum \<Rightarrow> jsnum" where
  "js_div NaN b = NaN"
| "js_div a NaN = NaN"
| "js_div (Num a) (Num b) =
     (if b = 0 then (if a = 0 then NaN else if 0 < a then PosInf else NegInf)
      else Num (a / b))"
| "js_div (Num a) PosInf = Num 0"
| "js_div (Num a) NegInf = Num 0"
| "js_div PosInf (Num b) = (if b < 0 then NegInf else PosInf)"
| "js_div NegInf (Num b) = (if b < 0 then PosInf else NegInf)"
| "js_div a b = NaN"

text \<open>\<^verbatim>\<open>a % b\<close>: the remainder has the sign of the dividend.\<close>

fun js_rem :: "jsnum \<Rightarrow> jsnum \<Rightarrow> jsnum" where
  "js_rem (Num a) (Num b) =
     (if b = 0 then NaN
      else Num (a - b * of_int (if 0 \<le> a / b then \<lfloor>a / b\<rfloor> else \<lceil>a / b\<rceil>)))"
| "js_rem (Num a) PosInf = Num a"
| "js_rem (Num a) NegInf = Num a"
| "js_rem a b = NaN"

text \<open>\<^verbatim>\<open>Math.floor(a)\<close>.\<close>

fun js_floor :: "jsnum \<Rightarrow> jsnum" where
  "js_floor (Num a) = Num (of_int \<lfloor>a\<rfloor>)"
| "js_floor a = a"

text \<open>\<^verbatim>\<open>a > b\<close> and \<^verbatim>\<open>a >= b\<close>: false as soon as one side is NaN.\<close>

fun js_gt :: "jsnum \<Rightarrow> jsnum \<Rightarrow> bool" where
  "js_gt NaN b = False"
| "js_gt a NaN = False"
| "js_gt (Num a) (Num b) = (b < a)"
| "js_gt PosInf b = (b \<noteq> PosInf)"
| "js_gt a NegInf = (a \<noteq> NegInf)"
| "js_gt a b = False"

fun js_ge :: "jsnum \<Rightarrow> jsnum \<Rightarrow> bool" where
  "js_ge NaN b = False"
| "js_ge a NaN = False"
| "js_ge a b = (a = b \<or> js_gt a b)"

subsection \<open>Numbers as text\<close>

text \<open>The decimal digits of a natural number.\<close>

definition digit :: "nat \<Rightarrow> char" where
  "digit d = ''0123456789'' ! d"

fun decimal :: "nat \<Rightarrow> string" where
  "decimal n =
     (if n < 10 then [digit n]
      else decimal (n div 10) @ [digit (n mod 10)])"

declare decimal.simps [simp del]

text \<open>
  \<^verbatim>\<open>String(x)\<close> of a number, as a template literal applies it.  An integer below
  \<open>10\<^sup>2\<^sup>1\<close> is written in decimal digits; the shortest round-trip form of
  any other finite double is the parameter \<open>other\<close>.
\<close>

definition numToString :: "(rat \<Rightarrow> string) \<Rightarrow> jsnum \<Rightarrow> string" where
  "numToString other x =
     (case x of
        NaN \<Rightarrow> ''NaN''
      | PosInf \<Rightarrow> ''Infinity''
      | NegInf \<Rightarrow> ''-Infinity''
      | Num q \<Rightarrow>
          if of_int \<lfloor>q\<rfloor> = q \<and> \<bar>q\<bar> < 10 ^ 21
          then (if q < 0 then ''-'' else '''') @ decimal (nat \<bar>\<lfloor>q\<rfloor>\<bar>)
          else other q)"

text \<open>
  \<^verbatim>\<open>x.toFixed(f)\<close> (ECMAScript, Number.prototype.toFixed): a value that is not finite
  is written by name, a value of magnitude \<open>10\<^sup>2\<^sup>1\<close> or more as \<^verbatim>\<open>String(x)\<close>;
  otherwise the integer \<open>n\<close> nearest to \<open>x * 10\<^sup>f\<close> (the larger one on a tie)
  is written with a point before its last \<open>f\<close> digits, padded with zeros to
  \<open>f + 1\<close> digits.
\<close>

definition toFixed :: "(rat \<Rightarrow> string) \<Rightarrow> nat \<Rightarrow> jsnum \<Rightarrow> string" where
  "toFixed other f x =
     (case x of
        NaN \<Rightarrow> ''NaN''
      | PosInf \<Rightarrow> ''Infinity''
      | NegInf \<Rightarrow> ''-Infinity''
      | Num q \<Rightarrow>
          if 10 ^ 21 \<le> \<bar>q\<bar> then numToString other (Num q)
          else
            (let n = nat \<lfloor>\<bar>q\<bar> * 10 ^ f + 1 / 2\<rfloor>;
                 m = decimal n;
                 m' = replicate (f + 1 - length m) (CHR ''0'') @ m;
                 k = length m'
             in (if q < 0 then ''-'' else '''') @
                (if f = 0 then m' else take (k - f) m' @ ''.'' @ drop (k - f) m')))"

section \<open>The world outside the program\<close>

text \<open>
  Everything the code obtains from outside itself: the two external tools, the file
  system, the clock, the library functions of Node.js that are not modelled, and the order
  in which the jobs of a group finish.  Each is a function of its arguments, so a run is
  deterministic in a given world and the theorems below hold in every world.
\<close>

record world =
  ffprobe :: "string \<Rightarrow> error + string"
    \<comment> \<open>\<^verbatim>\<open>execAsync('ffprobe ... "audioPath"')\<close>: rejects, or fulfils with stdout\<close>
  whisper :: "string \<Rightarrow> error option"
    \<comment> \<open>\<^verbatim>\<open>execAsync('whisper "audioPath" ...')\<close>: rejects with the error, or fulfils\<close>
  fs_access :: "string \<Rightarrow> bool"
    \<comment> \<open>\<^verbatim>\<open>fs.access(path)\<close> fulfils\<close>
  fs_readFile :: "string \<Rightarrow> error + string"
    \<comment> \<open>reading the JSON artifact that whisper wrote\<close>
  fs_mkdir :: "string \<Rightarrow> error option"
  fs_writeFile :: "string \<Rightarrow> error option"
    \<comment> \<open>\<^verbatim>\<open>fs.writeFile(path, ...)\<close>: rejects with the error, or fulfils\<close>
  glob :: "string \<Rightarrow> error + string list"
    \<comment> \<open>\<^verbatim>\<open>glob(pattern)\<close> over the audio files: rejects, or fulfils with the paths\<close>
  glob_match :: "string \<Rightarrow> string \<Rightarrow> bool"
    \<comment> \<open>whether \<^verbatim>\<open>glob\<close> matches a file name of a directory against a pattern\<close>
  JSON_parse :: "string \<Rightarrow> error + jsval"
  parseFloat :: "jsval \<Rightarrow> jsnum"
  parseInt :: "jsval \<Rightarrow> jsnum"
  Number_toString :: "rat \<Rightarrow> string"
    \<comment> \<open>\<^verbatim>\<open>String(x)\<close> of a finite double that is not an integer below \<open>10\<^sup>2\<^sup>1\<close>\<close>
  js_String :: "jsval \<Rightarrow> string"
    \<comment> \<open>\<^verbatim>\<open>String(v)\<close> of a value that is not a string\<close>
  path_join :: "string \<Rightarrow> string \<Rightarrow> string"
  path_basename :: "string \<Rightarrow> string"
  path_basename_ext :: "string \<Rightarrow> string \<Rightarrow> string"
    \<comment> \<open>\<^verbatim>\<open>path.basename(p, ext)\<close>\<close>
  path_extname :: "string \<Rightarrow> string"
  elapsed_ms :: "string \<Rightarrow> int"
    \<comment> \<open>\<^verbatim>\<open>Date.now() - startTime\<close> around the transcription of a file\<close>
  batch_ms :: int
    \<comment> \<open>\<^verbatim>\<open>Date.now() - startTime\<close> around the whole batch\<close>
  toISOString :: "string \<Rightarrow> string"
    \<comment> \<open>\<^verbatim>\<open>new Date().toISOString()\<close> when the job of a file settles\<close>
  finishRank :: "string \<Rightarrow> nat"
    \<comment> \<open>when the job of a file settles: a smaller rank settles first\<close>

section \<open>WhisperTranscriber\<close>

text \<open>
  \<^verbatim>\<open>transcribe(audioPath, { outputFormat, outputDir })\<close>.  A missing audio file throws
  before the tool is run; any failure of the tool, of reading its JSON artifact or of
  parsing it is rethrown with the prefix \<^verbatim>\<open>Transcription error:\<close>.
\<close>

definition transcribe :: "world \<Rightarrow> string \<Rightarrow> string \<Rightarrow> string \<Rightarrow> error + jsval" where
  "transcribe w audioPath outputFormat outputDir =
     (if \<not> fs_access w audioPath
      then Inl (Error (''Audio file not found: '' @ audioPath))
      else
        (case
           (case whisper w audioPath of
              Some e \<Rightarrow> Inl e
            | None \<Rightarrow>
                if outputFormat = ''json'' then
                  (let baseName = path_basename_ext w audioPath (path_extname w audioPath);
                       jsonPath = path_join w outputDir (baseName @ ''.json'')
                   in case fs_readFile w jsonPath of
                        Inl e \<Rightarrow> Inl e
                      | Inr content \<Rightarrow> JSON_parse w content)
                else Inr (JObject [(''success'', JBool True),
                                   (''message'', JString ''Transcription saved'')]))
         of
           Inl error \<Rightarrow> Inl (Error (''Transcription error: '' @ message error))
         | Inr v \<Rightarrow> Inr v))"

text \<open>\<^verbatim>\<open>formatDuration(seconds)\<close>.\<close>

definition formatDuration :: "world \<Rightarrow> jsnum \<Rightarrow> string" where
  "formatDuration w seconds =
     (let str = numToString (Number_toString w);
          hours = js_floor (js_div seconds (Num 3600));
          minutes = js_floor (js_div (js_rem seconds (Num 3600)) (Num 60));
          secs = js_floor (js_rem seconds (Num 60))
      in if js_gt hours (Num 0)
         then str hours @ ''h '' @ str minutes @ ''m '' @ str secs @ ''s''
         else if js_gt minutes (Num 0)
         then str minutes @ ''m '' @ str secs @ ''s''
         else str secs @ ''s'')"

text \<open>\<^verbatim>\<open>formatFileSize(bytes)\<close>: the loop divides by 1024 at most three times.\<close>

function formatFileSize_loop :: "jsnum \<Rightarrow> nat \<Rightarrow> jsnum \<times> nat" where
  "formatFileSize_loop sz unitIndex =
     (if js_ge sz (Num 1024) \<and> unitIndex < 4 - 1
      then formatFileSize_loop (js_div sz (Num 1024)) (unitIndex + 1)
      else (sz, unitIndex))"
  by pat_completeness auto
termination
  by (relation "measure (\<lambda>(sz, unitIndex). 3 - unitIndex)") auto

declare formatFileSize_loop.simps [simp del]

definition formatFileSize :: "world \<Rightarrow> jsnum \<Rightarrow> string" where
  "formatFileSize w bytes =
     (let units = [''B'', ''KB'', ''MB'', ''GB''];
          (sz, unitIndex) = formatFileSize_loop bytes 0
      in toFixed (Number_toString w) 2 sz @ '' '' @ units ! unitIndex)"

text \<open>The record that \<^verbatim>\<open>getAudioInfo\<close> returns.\<close>

record audioInfo =
  ai_duration :: string
  ai_durationSeconds :: jsnum
  ai_codec :: jsval
  ai_sampleRate :: jsval
  ai_channels :: jsval
  ai_bitrate :: jsval
  ai_size :: jsnum
  ai_sizeFormatted :: string

text \<open>\<^verbatim>\<open>info.streams.find(s => s.codec_type === 'audio')\<close>: the callback throws on a
  \<^verbatim>\<open>null\<close> element, and \<^verbatim>\<open>find\<close> exists on arrays only.\<close>

fun find_audio :: "jsval list \<Rightarrow> error + jsval" where
  "find_audio [] = Inr JUndefined"
| "find_audio (s # ss) =
     (case getProp s ''codec_type'' of
        Inl e \<Rightarrow> Inl e
      | Inr t \<Rightarrow> if t = JString ''audio'' then Inr s else find_audio ss)"

fun streams_find :: "jsval \<Rightarrow> error + jsval" where
  "streams_find (JArray ss) = find_audio ss"
| "streams_find JUndefined = Inl (TypeError ''Cannot read properties of undefined (reading find)'')"
| "streams_find JNull = Inl (TypeError ''Cannot read properties of null (reading find)'')"
| "streams_find v = Inl (TypeError ''info.streams.find is not a function'')"

text \<open>The body of the \<^verbatim>\<open>try\<close> block of \<^verbatim>\<open>getAudioInfo\<close>: every statement of it
  that can throw is a branch.\<close>

definition getAudioInfo_try :: "world \<Rightarrow> string \<Rightarrow> error + audioInfo" where
  "getAudioInfo_try w audioPath =
     (case ffprobe w audioPath of
        Inl e \<Rightarrow> Inl e
      | Inr stdout \<Rightarrow>
     (case JSON_parse w stdout of
        Inl e \<Rightarrow> Inl e
      | Inr info \<Rightarrow>
     (case getProp info ''streams'' of
        Inl e \<Rightarrow> Inl e
      | Inr streams \<Rightarrow>
     (case streams_find streams of
        Inl e \<Rightarrow> Inl e
      | Inr audioStream \<Rightarrow>
     (case getProp info ''format'' of
        Inl e \<Rightarrow> Inl e
      | Inr format \<Rightarrow>
     (case getProp format ''duration'' of
        Inl e \<Rightarrow> Inl e
      | Inr d \<Rightarrow>
     (case getProp format ''bit_rate'' of
        Inl e \<Rightarrow> Inl e
      | Inr bit_rate \<Rightarrow>
     (case getProp format ''size'' of
        Inl e \<Rightarrow> Inl e
      | Inr sz \<Rightarrow>
          (let duration = parseFloat w d
           in Inr \<lparr> ai_duration = formatDuration w duration,
                    ai_durationSeconds = duration,
                    ai_codec = getPropOpt audioStream ''codec_name'',
                    ai_sampleRate = getPropOpt audioStream ''sample_rate'',
                    ai_channels = getPropOpt audioStream ''channels'',
                    ai_bitrate = bit_rate,
                    ai_size = parseInt w sz,
                    ai_sizeFormatted = formatFileSize w (parseInt w sz) \<rparr>)))))))))"

text \<open>
  \<^verbatim>\<open>getAudioInfo(audioPath)\<close>: the whole body is inside \<^verbatim>\<open>try\<close>, and the
  \<^verbatim>\<open>catch\<close> returns \<^verbatim>\<open>null\<close>.  The result type is that of any asynchronous
  call of the program, \<open>Inl\<close> for a rejection; \<^verbatim>\<open>null\<close> is \<open>None\<close>.
\<close>

definition getAudioInfo :: "world \<Rightarrow> string \<Rightarrow> error + audioInfo option" where
  "getAudioInfo w audioPath =
     (case getAudioInfo_try w audioPath of
        Inl error \<Rightarrow> Inr None
      | Inr info \<Rightarrow> Inr (Some info))"

section \<open>BatchProcessor\<close>

subsection \<open>Configuration\<close>

text \<open>
  The options object of the constructor.  A missing option is \<open>None\<close>; the concurrency is
  an integer and the output directory a string, as the batch configuration has them.  The
  continue-on-error option is kept as any JavaScript value (\<open>JUndefined\<close> when it is
  missing), because the constructor compares it with \<^verbatim>\<open>!== false\<close>.
\<close>

record options =
  opt_concurrency :: "int option"
  opt_outputDir :: "string option"
  opt_continueOnError :: jsval

record batchProcessor =
  concurrency :: int
  outputDir :: string
  continueOnError :: bool

text \<open>The constructor: \<^verbatim>\<open>x || d\<close> takes the default \<open>d\<close> when \<open>x\<close> is missing, zero
  or the empty string.\<close>

definition BatchProcessor :: "options \<Rightarrow> batchProcessor" where
  "BatchProcessor options =
     \<lparr> concurrency =
         (case opt_concurrency options of
            None \<Rightarrow> 1
          | Some c \<Rightarrow> if c = 0 then 1 else c),
       outputDir =
         (case opt_outputDir options of
            None \<Rightarrow> ''./output''
          | Some d \<Rightarrow> if d = [] then ''./output'' else d),
       continueOnError = (opt_continueOnError options \<noteq> JBool False) \<rparr>"

subsection \<open>Groups\<close>

text \<open>\<^verbatim>\<open>items.slice(start, end)\<close> on integers: a negative index counts from the end,
  and both are clamped to the array.\<close>

definition js_slice :: "'a list \<Rightarrow> int \<Rightarrow> int \<Rightarrow> 'a list" where
  "js_slice items start end =
     (let len = int (length items);
          k = (if start < 0 then max (len + start) 0 else min start len);
          final = (if end < 0 then max (len + end) 0 else min end len)
      in take (nat (final - k)) (drop (nat k) items))"

text \<open>
  The loop of \<^verbatim>\<open>createBatches(items, batchSize)\<close>.  With a batch size that is not
  positive the index never passes the length and the loop runs forever on a list that is not
  empty: the function is partial, and \<open>None\<close> is a run that does not return.
\<close>

partial_function (option) createBatches_loop ::
  "'a list \<Rightarrow> int \<Rightarrow> int \<Rightarrow> 'a list list \<Rightarrow> 'a list list option" where
  "createBatches_loop items batchSize i batches =
     (if i < int (length items)
      then createBatches_loop items batchSize (i + batchSize)
             (batches @ [js_slice items i (i + batchSize)])
      else Some batches)"

declare createBatches_loop.simps [code]

definition createBatches :: "'a list \<Rightarrow> int \<Rightarrow> 'a list list option" where
  "createBatches items batchSize = createBatches_loop items batchSize 0 []"

subsection \<open>One job\<close>

record jobResult =
  jr_file :: string
  jr_fileName :: string
  jr_outputFile :: string
  jr_duration :: "jsnum option"
    \<comment> \<open>\<open>None\<close> is \<^verbatim>\<open>undefined\<close>\<close>
  jr_processingTime :: jsnum
  jr_speedRatio :: "string option"
    \<comment> \<open>\<open>None\<close> is \<^verbatim>\<open>null\<close>\<close>
  jr_text :: jsval
  jr_language :: jsval
  jr_timestamp :: string

record jobError =
  je_file :: string
  je_error :: string
  je_timestamp :: string

text \<open>
  \<^verbatim>\<open>processFile(filePath)\<close>: probe the audio, transcribe to JSON, time the
  transcription, build the result.  Nothing is caught here: a rejection of either call, or
  reading \<^verbatim>\<open>text\<close> of a \<^verbatim>\<open>null\<close> transcript, rejects the job.
\<close>

definition processFile :: "world \<Rightarrow> batchProcessor \<Rightarrow> string \<Rightarrow> error + jobResult" where
  "processFile w bp filePath =
     (let fileName = path_basename w filePath;
          outputName = path_basename_ext w filePath (path_extname w filePath)
      in case getAudioInfo w filePath of
           Inl e \<Rightarrow> Inl e
         | Inr audioInfo \<Rightarrow>
        (case transcribe w filePath ''json'' (outputDir bp) of
           Inl e \<Rightarrow> Inl e
         | Inr transcript \<Rightarrow>
        (let processingTime = Num (of_int (elapsed_ms w filePath) / 1000)
         in case getProp transcript ''text'' of
              Inl e \<Rightarrow> Inl e
            | Inr txt \<Rightarrow>
           (case getProp transcript ''language'' of
              Inl e \<Rightarrow> Inl e
            | Inr language \<Rightarrow>
                Inr \<lparr> jr_file = filePath,
                      jr_fileName = fileName,
                      jr_outputFile = path_join w (outputDir bp) (outputName @ ''.json''),
                      jr_duration = map_option ai_durationSeconds audioInfo,
                      jr_processingTime = processingTime,
                      jr_speedRatio =
                        (case audioInfo of
                           Some a \<Rightarrow>
                             Some (toFixed (Number_toString w) 2
                                     (js_div (ai_durationSeconds a) processingTime))
                         | None \<Rightarrow> None),
                      jr_text = txt,
                      jr_language = language,
                      jr_timestamp = toISOString w filePath \<rparr>))))"

subsection \<open>The report and the summary\<close>

record batchReport =
  br_results :: "jobResult list"
  br_errors :: "jobError list"
  br_duration :: jsnum
  br_totalFiles :: nat
  br_successful :: nat
  br_failed :: nat

definition newline :: string where
  "newline = [CHR 0x0A]"

text \<open>\<^verbatim>\<open>lines.join(sep)\<close>.\<close>

fun join :: "string \<Rightarrow> string list \<Rightarrow> string" where
  "join sep [] = []"
| "join sep [x] = x"
| "join sep (x # y # ys) = x @ sep @ join sep (y # ys)"

text \<open>\<^verbatim>\<open>result.text ? result.text.substring(0, 100) + '...' : 'No text'\<close>: a text that
  is truthy and not a string has no \<^verbatim>\<open>substring\<close>.\<close>

definition textPreview :: "jsval \<Rightarrow> error + string" where
  "textPreview t =
     (if truthy t
      then (case t of
              JString s \<Rightarrow> Inr (take 100 s @ ''...'')
            | _ \<Rightarrow> Inl (TypeError ''result.text.substring is not a function''))
      else Inr ''No text'')"

definition resultLines :: "world \<Rightarrow> nat \<Rightarrow> jobResult \<Rightarrow> error + string list" where
  "resultLines w index result =
     (case textPreview (jr_text result) of
        Inl e \<Rightarrow> Inl e
      | Inr preview \<Rightarrow>
          Inr [ decimal (index + 1) @ ''. '' @ jr_fileName result,
                ''   Duration: '' @
                  (case jr_duration result of
                     Some d \<Rightarrow>
                       if truthy (JNumber d)
                       then toFixed (Number_toString w) 1 d @ ''s'' else ''N/A''
                   | None \<Rightarrow> ''N/A''),
                ''   Processing Time: '' @
                  toFixed (Number_toString w) 1 (jr_processingTime result) @ ''s'',
                ''   Speed Ratio: '' @
                  (case jr_speedRatio result of
                     Some r \<Rightarrow> if r \<noteq> [] then r @ ''x'' else ''N/A''
                   | None \<Rightarrow> ''N/A''),
                ''   Text Preview: '' @ preview,
                [] ])"

fun forEach_result :: "world \<Rightarrow> nat \<Rightarrow> jobResult list \<Rightarrow> error + string list" where
  "forEach_result w index [] = Inr []"
| "forEach_result w index (r # rs) =
     (case resultLines w index r of
        Inl e \<Rightarrow> Inl e
      | Inr ls \<Rightarrow>
          (case forEach_result w (index + 1) rs of
             Inl e \<Rightarrow> Inl e
           | Inr others \<Rightarrow> Inr (ls @ others)))"

fun forEach_error :: "nat \<Rightarrow> jobError list \<Rightarrow> string list" where
  "forEach_error index [] = []"
| "forEach_error index (e # es) =
     [ decimal (index + 1) @ ''. '' @ je_file e,
       ''   Error: '' @ je_error e,
       [] ] @ forEach_error (index + 1) es"

text \<open>\<^verbatim>\<open>generateSummary(report)\<close>.\<close>

definition generateSummary :: "world \<Rightarrow> batchReport \<Rightarrow> error + string" where
  "generateSummary w report =
     (let rule = replicate 60 (CHR ''='');
          head =
            [ rule,
              ''TRANSCRIPTION BATCH PROCESSING SUMMARY'',
              rule,
              [],
              ''Total Files Processed: '' @ decimal (br_totalFiles report),
              ''Successful: '' @ decimal (br_successful report),
              ''Failed: '' @ decimal (br_failed report),
              ''Total Duration: '' @
                toFixed (Number_toString w) 2 (br_duration report) @ '' seconds'',
              [],
              rule,
              ''SUCCESSFULLY PROCESSED FILES:'',
              rule,
              [] ]
      in case forEach_result w 0 (br_results report) of
           Inl e \<Rightarrow> Inl e
         | Inr body \<Rightarrow>
             Inr (join newline
                    (head @ body @
                     (if length (br_errors report) > 0
                      then [rule, ''FAILED FILES:'', rule, []] @
                           forEach_error 0 (br_errors report)
                      else []))))"

subsection \<open>What a run does\<close>

text \<open>
  What is written to a file: \<open>ReportJson r\<close> stands for the text
  \<^verbatim>\<open>JSON.stringify(r, null, 2)\<close>.
\<close>

datatype fileContent = ReportJson batchReport | Text string

text \<open>
  The events of a run, in the order in which they happen: the output directory is
  created, a job is launched (its asynchronous callback is called by \<^verbatim>\<open>batch.map\<close>),
  a job settles (its promise is fulfilled or rejected), a file is written.
\<close>

datatype event =
    Mkdir string
  | Launch string
  | Settle string
  | WriteFile string fileContent

text \<open>The two arrays that \<^verbatim>\<open>processFiles\<close> fills, and the events so far.\<close>

record run =
  results :: "jobResult list"
  errors :: "jobError list"
  events :: "event list"

definition start :: run where
  "start = \<lparr> results = [], errors = [], events = [] \<rparr>"

text \<open>\<^verbatim>\<open>saveReport(report)\<close>: the report, then the summary.\<close>

definition saveReport ::
  "world \<Rightarrow> batchProcessor \<Rightarrow> run \<Rightarrow> batchReport \<Rightarrow> error option \<times> run" where
  "saveReport w bp st report =
     (let reportPath = path_join w (outputDir bp) ''transcription_report.json''
      in case fs_writeFile w reportPath of
           Some e \<Rightarrow> (Some e, st)
         | None \<Rightarrow>
        (let st1 = st\<lparr>events := events st @ [WriteFile reportPath (ReportJson report)]\<rparr>;
             summaryPath = path_join w (outputDir bp) ''summary.txt''
         in case generateSummary w report of
              Inl e \<Rightarrow> (Some e, st1)
            | Inr summary \<Rightarrow>
                (case fs_writeFile w summaryPath of
                   Some e \<Rightarrow> (Some e, st1)
                 | None \<Rightarrow>
                     (None,
                      st1\<lparr>events := events st1 @ [WriteFile summaryPath (Text summary)]\<rparr>))))"

subsection \<open>The batch\<close>

text \<open>
  The callback of \<^verbatim>\<open>batch.map\<close> from the point where \<^verbatim>\<open>processFile\<close> settles:
  a result is pushed to \<^verbatim>\<open>results\<close>; an error is pushed to \<^verbatim>\<open>errors\<close> and,
  unless \<^verbatim>\<open>continueOnError\<close> is set, thrown again, which rejects the promise of the job.
  The first component is that rejection.
\<close>

definition settle :: "world \<Rightarrow> batchProcessor \<Rightarrow> run \<Rightarrow> string \<Rightarrow> error option \<times> run" where
  "settle w bp st file =
     (case processFile w bp file of
        Inr result \<Rightarrow>
          (None, st\<lparr>results := results st @ [result],
                     events := events st @ [Settle file]\<rparr>)
      | Inl error \<Rightarrow>
          (let errorInfo = \<lparr> je_file = file,
                             je_error = message error,
                             je_timestamp = toISOString w file \<rparr>;
               st' = st\<lparr>errors := errors st @ [errorInfo],
                        events := events st @ [Settle file]\<rparr>
           in if \<not> continueOnError bp then (Some error, st') else (None, st')))"

text \<open>The jobs of a group settle in the order of their ranks.\<close>

definition completionOrder :: "world \<Rightarrow> string list \<Rightarrow> string list" where
  "completionOrder w batch = sort_key (finishRank w) batch"

text \<open>
  \<^verbatim>\<open>await Promise.all(batchPromises)\<close>: it returns when every promise is fulfilled and
  throws at the first one that is rejected.  The jobs that have not settled by then stay in
  flight; what they do later is not seen by \<^verbatim>\<open>processFiles\<close>, which has thrown.
\<close>

fun awaitAll :: "world \<Rightarrow> batchProcessor \<Rightarrow> run \<Rightarrow> string list \<Rightarrow> error option \<times> run" where
  "awaitAll w bp st [] = (None, st)"
| "awaitAll w bp st (file # rest) =
     (case settle w bp st file of
        (Some e, st') \<Rightarrow> (Some e, st')
      | (None, st') \<Rightarrow> awaitAll w bp st' rest)"

text \<open>One turn of the loop over the groups: \<^verbatim>\<open>batch.map\<close> launches every job of the
  group, then the loop waits.\<close>

definition runBatch :: "world \<Rightarrow> batchProcessor \<Rightarrow> run \<Rightarrow> string list \<Rightarrow> error option \<times> run" where
  "runBatch w bp st batch =
     awaitAll w bp (st\<lparr>events := events st @ map Launch batch\<rparr>) (completionOrder w batch)"

fun runBatches ::
  "world \<Rightarrow> batchProcessor \<Rightarrow> run \<Rightarrow> string list list \<Rightarrow> error option \<times> run" where
  "runBatches w bp st [] = (None, st)"
| "runBatches w bp st (batch # rest) =
     (case runBatch w bp st batch of
        (Some e, st') \<Rightarrow> (Some e, st')
      | (None, st') \<Rightarrow> runBatches w bp st' rest)"

text \<open>What \<^verbatim>\<open>processFiles\<close> and \<^verbatim>\<open>processDirectory\<close> return.\<close>

record batchOutcome =
  bo_results :: "jobResult list"
  bo_errors :: "jobError list"
  bo_duration :: "jsnum option"
    \<comment> \<open>\<open>None\<close>: the object has no \<^verbatim>\<open>duration\<close>\<close>

text \<open>
  \<^verbatim>\<open>processFiles(files)\<close>.  The value is \<open>None\<close> when the call does not return,
  \<open>Inl\<close> when it throws; the run is returned with it so that what happened can be
  stated.
\<close>

definition processFiles ::
  "world \<Rightarrow> batchProcessor \<Rightarrow> string list \<Rightarrow> ((error + batchOutcome) \<times> run) option" where
  "processFiles w bp files =
     (case fs_mkdir w (outputDir bp) of
        Some e \<Rightarrow> Some (Inl e, start)
      | None \<Rightarrow>
     (case createBatches files (concurrency bp) of
        None \<Rightarrow> None
      | Some batches \<Rightarrow>
     (case runBatches w bp (start\<lparr>events := [Mkdir (outputDir bp)]\<rparr>) batches of
        (Some e, st) \<Rightarrow> Some (Inl e, st)
      | (None, st) \<Rightarrow>
          (let duration = Num (of_int (batch_ms w) / 1000);
               report = \<lparr> br_results = results st,
                          br_errors = errors st,
                          br_duration = duration,
                          br_totalFiles = length files,
                          br_successful = length (results st),
                          br_failed = length (errors st) \<rparr>
           in case saveReport w bp st report of
                (Some e, st') \<Rightarrow> Some (Inl e, st')
              | (None, st') \<Rightarrow>
                  Some (Inr \<lparr> bo_results = results st',
                              bo_errors = errors st',
                              bo_duration = Some duration \<rparr>, st')))))"


text \<open>\<^verbatim>\<open>processDirectory(directory, pattern)\<close>: with no file found it returns at once,
  before \<^verbatim>\<open>processFiles\<close> is called.\<close>

definition processDirectory ::
  "world \<Rightarrow> batchProcessor \<Rightarrow> string \<Rightarrow> string \<Rightarrow> ((error + batchOutcome) \<times> run) option" where
  "processDirectory w bp directory pattern =
     (let searchPattern = path_join w (path_join w directory ''**'') pattern
      in case glob w searchPattern of
           Inl e \<Rightarrow> Some (Inl e, start)
         | Inr files \<Rightarrow>
             if length files = 0
             then Some (Inr \<lparr> bo_results = [], bo_errors = [], bo_duration = None \<rparr>, start)
             else processFiles w bp files)"

subsection \<open>Merging the transcripts\<close>

text \<open>
  The output directory as \<^verbatim>\<open>mergeTranscripts\<close> sees it: its entries by name, in the
  order in which \<^verbatim>\<open>glob\<close> lists them.  An entry is a regular file with its text, or a
  directory.  A file name stands for the path \<^verbatim>\<open>path.join(outputDir, name)\<close>, whose
  \<^verbatim>\<open>path.basename\<close> is the name again.
\<close>

datatype entry = File string | Directory

type_synonym directory = "(string \<times> entry) list"

text \<open>\<^verbatim>\<open>fs.readFile(file, 'utf-8')\<close>.\<close>

definition readEntry :: "directory \<Rightarrow> string \<Rightarrow> error + string" where
  "readEntry d name =
     (case map_of d name of
        Some (File content) \<Rightarrow> Inr content
      | Some Directory \<Rightarrow> Inl (Error ''EISDIR: illegal operation on a directory, read'')
      | None \<Rightarrow> Inl (Error ''ENOENT: no such file or directory''))"

text \<open>Storing an entry: an entry of that name is replaced where it stands, a new one is
  added at the end.\<close>

fun upsert :: "string \<Rightarrow> entry \<Rightarrow> directory \<Rightarrow> directory" where
  "upsert name e [] = [(name, e)]"
| "upsert name e ((n, x) # rest) =
     (if n = name then (name, e) # rest else (n, x) # upsert name e rest)"

text \<open>\<^verbatim>\<open>fs.writeFile(path, content)\<close> into the directory: it fails where the world says
  so, and on a name that is a directory.\<close>

definition writeEntry :: "world \<Rightarrow> string \<Rightarrow> directory \<Rightarrow> string \<Rightarrow> string \<Rightarrow> error + directory" where
  "writeEntry w path d name content =
     (case fs_writeFile w path of
        Some e \<Rightarrow> Inl e
      | None \<Rightarrow>
          (case map_of d name of
             Some Directory \<Rightarrow> Inl (Error ''EISDIR: illegal operation on a directory, open'')
           | _ \<Rightarrow> Inr (upsert name (File content) d)))"

record transcriptRef =
  tr_file :: string
  tr_text :: jsval

text \<open>
  The loop over \<^verbatim>\<open>jsonFiles\<close>: the report is skipped; a file that cannot be read or
  parsed, or whose JSON is \<^verbatim>\<open>null\<close>, makes the whole call throw; a transcript whose
  \<^verbatim>\<open>text\<close> is falsy is left out.
\<close>

fun collectTranscripts :: "world \<Rightarrow> directory \<Rightarrow> string list \<Rightarrow> error + transcriptRef list" where
  "collectTranscripts w d [] = Inr []"
| "collectTranscripts w d (file # rest) =
     (if file = ''transcription_report.json'' then collectTranscripts w d rest
      else
        (case readEntry d file of
           Inl e \<Rightarrow> Inl e
         | Inr content \<Rightarrow>
        (case JSON_parse w content of
           Inl e \<Rightarrow> Inl e
         | Inr data \<Rightarrow>
        (case getProp data ''text'' of
           Inl e \<Rightarrow> Inl e
         | Inr t \<Rightarrow>
        (case collectTranscripts w d rest of
           Inl e \<Rightarrow> Inl e
         | Inr ts \<Rightarrow>
             Inr (if truthy t then \<lparr> tr_file = file, tr_text = t \<rparr> # ts else ts))))))"

text \<open>A value inside a template literal.\<close>

definition toText :: "world \<Rightarrow> jsval \<Rightarrow> string" where
  "toText w v = (case v of JString s \<Rightarrow> s | _ \<Rightarrow> js_String w v)"

text \<open>The merged text: for each transcript a header with the file name in brackets and the
  text, each on a line of its own, the transcripts separated by a line of sixty \<^verbatim>\<open>=\<close>.\<close>

definition mergedContent :: "world \<Rightarrow> transcriptRef list \<Rightarrow> string" where
  "mergedContent w transcripts =
     join (newline @ replicate 60 (CHR ''='') @ newline)
       (map (\<lambda>t. ''['' @ tr_file t @ '']'' @ newline @ toText w (tr_text t) @ newline)
          transcripts)"


text \<open>
  \<^verbatim>\<open>mergeTranscripts(outputFile)\<close> on a directory: the path of the merged file or the
  error thrown, and the directory afterwards.  The output file is a name in the output
  directory.
\<close>

definition mergeTranscripts ::
  "world \<Rightarrow> batchProcessor \<Rightarrow> string \<Rightarrow> directory \<Rightarrow> (error + string) \<times> directory" where
  "mergeTranscripts w bp outputFile d =
     (let jsonFiles = filter (glob_match w ''*.json'') (map fst d)
      in case collectTranscripts w d jsonFiles of
           Inl e \<Rightarrow> (Inl e, d)
         | Inr transcripts \<Rightarrow>
             (let outputPath = path_join w (outputDir bp) outputFile
              in case writeEntry w outputPath d outputFile (mergedContent w transcripts) of
                   Inl e \<Rightarrow> (Inl e, d)
                 | Inr d' \<Rightarrow> (Inr outputPath, d')))"

section \<open>Auxiliary definitions for the proofs\<close>

text \<open>Consecutive groups of at most \<open>n\<close> elements: what \<^verbatim>\<open>createBatches\<close> computes for a
  positive batch size.\<close>

function groups :: "nat \<Rightarrow> 'a list \<Rightarrow> 'a list list" where
  "groups n xs = (if n = 0 \<or> xs = [] then [] else take n xs # groups n (drop n xs))"
  by pat_completeness auto
termination
  by (relation "measure (\<lambda>(n, xs). length xs)") auto

declare groups.simps [simp del]

text \<open>A job succeeds when \<^verbatim>\<open>processFile\<close> returns a result for its file.\<close>

definition jobSucceeds :: "world \<Rightarrow> batchProcessor \<Rightarrow> string \<Rightarrow> bool" where
  "jobSucceeds w bp file = (case processFile w bp file of Inr r \<Rightarrow> True | Inl e \<Rightarrow> False)"

text \<open>The reports that a run has written.\<close>

definition reports :: "run \<Rightarrow> batchReport list" where
  "reports st = concat (map (\<lambda>ev. case ev of WriteFile p (ReportJson rep) \<Rightarrow> [rep] | _ \<Rightarrow> []) (events st))"

subsection \<open>A concrete world\<close>

text \<open>
  A world in which every probe but that of \<^verbatim>\<open>c.mp3\<close> answers with a duration of
  120 seconds, every transcription but that of \<^verbatim>\<open>bad.mp3\<close> succeeds after 60
  seconds, and \<^verbatim>\<open>a.mp3\<close> finishes after the other job of its group.
\<close>

definition demo :: world where
  "demo =
     \<lparr> ffprobe = (\<lambda>p. if p = ''c.mp3'' then Inl (Error ''ffprobe failed'') else Inr ''{probe}''),
       whisper = (\<lambda>p. if p = ''bad.mp3'' then Some (Error ''Command failed'') else None),
       fs_access = (\<lambda>p. True),
       fs_readFile = (\<lambda>p. Inr ''{transcript}''),
       fs_mkdir = (\<lambda>d. None),
       fs_writeFile = (\<lambda>p. None),
       glob = (\<lambda>p. Inr []),
       glob_match = (\<lambda>pattern name.
         pattern = ''*.json'' \<and> drop (length name - 5) name = ''.json''),
       JSON_parse = (\<lambda>s.
         if s = ''{probe}''
         then Inr (JObject [(''streams'', JArray [JObject [(''codec_type'', JString ''audio'')]]),
                            (''format'', JObject [(''duration'', JString ''120.0'')])])
         else if s = ''{transcript}''
         then Inr (JObject [(''text'', JString ''hello''), (''language'', JString ''en'')])
         else Inl (SyntaxError ''Unexpected token'')),
       parseFloat = (\<lambda>v. if v = JString ''120.0'' then Num 120 else NaN),
       parseInt = (\<lambda>v. NaN),
       Number_toString = (\<lambda>q. ''?''),
       js_String = (\<lambda>v. ''?''),
       path_join = (\<lambda>a b. a @ ''/'' @ b),
       path_basename = (\<lambda>p. p),
       path_basename_ext = (\<lambda>p e. take (length p - length e) p),
       path_extname = (\<lambda>p. drop (length p - 4) p),
       elapsed_ms = (\<lambda>p. 60000),
       batch_ms = 1000,
       toISOString = (\<lambda>p. ''T''),
       finishRank = (\<lambda>p. if p = ''a.mp3'' then 1 else 0) \<rparr>"

definition demo_bp :: batchProcessor where
  "demo_bp = BatchProcessor \<lparr> opt_concurrency = Some 2, opt_outputDir = None, opt_continueOnError = JUndefined \<rparr>"

definition demo_files :: "string list" where
  "demo_files = [''a.mp3'', ''b.mp3'', ''bad.mp3'', ''c.mp3'', ''e.mp3'']"

subsection \<open>Rendering to two decimal places\<close>


subsection \<open>Jobs in flight\<close>

text \<open>
  The number of jobs in flight after a sequence of events: the jobs launched and not yet
  settled.
\<close>

fun delta :: "event \<Rightarrow> int" where
  "delta (Launch f) = 1"
| "delta (Settle f) = - 1"
| "delta ev = 0"

definition inFlight :: "event list \<Rightarrow> int" where
  "inFlight evs = sum_list (map delta evs)"

fun isLaunch :: "event \<Rightarrow> bool" where
  "isLaunch (Launch f) = True"
| "isLaunch ev = False"

text \<open>The ceiling holds after every prefix of the events.\<close>

definition bounded :: "int \<Rightarrow> event list \<Rightarrow> bool" where
  "bounded c evs = (\<forall>n. 0 \<le> inFlight (take n evs) \<and> inFlight (take n evs) \<le> c)"

text \<open>The barrier: a launch that does not directly follow another launch is the first
  launch of its group, and nothing is in flight when it happens.\<close>

definition barrier :: "event list \<Rightarrow> bool" where
  "barrier evs = (\<forall>n. n < length evs \<longrightarrow> isLaunch (evs ! n) \<longrightarrow> (n = 0 \<or> \<not> isLaunch (evs ! (n - 1))) \<longrightarrow>
                     inFlight (take n evs) = 0)"

text \<open>The files of the jobs that a run has launched, in launch order.\<close>

definition launched :: "run \<Rightarrow> string list" where
  "launched st = concat (map (\<lambda>ev. case ev of Launch f \<Rightarrow> [f] | _ \<Rightarrow> []) (events st))"

subsection \<open>The counts of an outcome\<close>




subsection \<open>The inputs of a merge\<close>

text \<open>What \<^verbatim>\<open>mergeTranscripts\<close> reads of a directory: the names that \<^verbatim>\<open>glob\<close> lists
  for \<^verbatim>\<open>*.json\<close>, in order, each with what reading it gives.\<close>

definition jsonInputs :: "world \<Rightarrow> directory \<Rightarrow> (string \<times> (error + string)) list" where
  "jsonInputs w d =
     map (\<lambda>name. (name, readEntry d name)) (filter (glob_match w ''*.json'') (map fst d))"

subsection \<open>More concrete worlds\<close>



text \<open>The concrete processor with the abort policy, and a batch whose fourth job fails.\<close>

definition demo_strict :: batchProcessor where
  "demo_strict =
     BatchProcessor \<lparr> opt_concurrency = Some 2, opt_outputDir = None,
                      opt_continueOnError = JBool False \<rparr>"

definition demo_strict_files :: "string list" where
  "demo_strict_files = [''a.mp3'', ''b.mp3'', ''c.mp3'', ''bad.mp3'', ''e.mp3'']"

text \<open>The concrete processor built with \<^verbatim>\<open>continueOnError: null\<close>.\<close>

definition demo_null :: batchProcessor where
  "demo_null =
     BatchProcessor \<lparr> opt_concurrency = None, opt_outputDir = None,
                      opt_continueOnError = JNull \<rparr>"

text \<open>An output directory after a batch over two files, and its merged text.\<close>

definition demo_dir :: directory where
  "demo_dir =
     [ (''a.json'', File ''{transcript}''),
       (''transcription_report.json'', File ''{report}''),
       (''summary.txt'', File ''text''),
       (''b.json'', File ''{transcript}'') ]"

definition demo_merged :: string where
  "demo_merged =
     ''[a.json]'' @ newline @ ''hello'' @ newline @
     newline @ replicate 60 (CHR ''='') @ newline @
     ''[b.json]'' @ newline @ ''hello'' @ newline"

section \<open>Groups: what \<^verbatim>\<open>createBatches\<close> returns\<close>

lemma groups_Nil [simp]: "groups n [] = []"
  by (simp add: groups.simps)

lemma groups_Cons: "0 < n \<Longrightarrow> xs \<noteq> [] \<Longrightarrow> groups n xs = take n xs # groups n (drop n xs)"
  by (subst groups.simps) simp

lemma concat_groups: "0 < n \<Longrightarrow> concat (groups n xs) = xs"
proof (induction n xs rule: groups.induct)
  case (1 n xs)
  then show ?case by (cases "xs = []") (simp_all add: groups_Cons)
qed

lemma groups_bounded: "g \<in> set (groups n xs) \<Longrightarrow> length g \<le> n \<and> g \<noteq> []"
proof (induction n xs rule: groups.induct)
  case (1 n xs)
  show ?case
  proof (cases "n = 0 \<or> xs = []")
    case True
    with 1(2) show ?thesis by (simp add: groups.simps)
  next
    case False
    with 1 show ?thesis by (auto simp: groups_Cons)
  qed
qed

lemma js_slice_unfold:
  assumes "0 \<le> i" "i < int (length items)" "0 < b"
  shows "js_slice items i (i + b) = take (nat (min (i + b) (int (length items)) - i)) (drop (nat i) items)"
proof -
  have "\<not> i < 0" "\<not> i + b < 0" "min i (int (length items)) = i" using assms by auto
  then show ?thesis unfolding js_slice_def Let_def by (simp only: if_False)
qed

lemma js_slice_group:
  assumes "0 \<le> i" "i < int (length items)" "0 < b"
  shows "js_slice items i (i + b) = take (nat b) (drop (nat i) items)"
proof (cases "i + b \<le> int (length items)")
  case True
  then have "min (i + b) (int (length items)) - i = b" by simp
  then show ?thesis using js_slice_unfold[OF assms] by simp
next
  case False
  then have m: "min (i + b) (int (length items)) - i = int (length items) - i" by simp
  have "nat (int (length items) - i) = length items - nat i" using assms by linarith
  moreover have "length (drop (nat i) items) \<le> nat b" using False assms by simp
  ultimately show ?thesis using js_slice_unfold[OF assms] m by simp
qed

lemma createBatches_loop_returns:
  assumes "0 < b" "0 \<le> i"
  shows "createBatches_loop items b i acc = Some (acc @ groups (nat b) (drop (nat i) items))"
  using assms
proof (induction "length items - nat i" arbitrary: i acc rule: less_induct)
  case less
  show ?case
  proof (cases "i < int (length items)")
    case True
    have d: "drop (nat i) items \<noteq> []" using True less.prems by auto
    have "length items - nat (i + b) < length items - nat i"
      using True less.prems by linarith
    from less.hyps[OF this] less.prems
    have "createBatches_loop items b (i + b) (acc @ [js_slice items i (i + b)]) =
            Some ((acc @ [js_slice items i (i + b)]) @ groups (nat b) (drop (nat (i + b)) items))"
      by simp
    moreover have "drop (nat (i + b)) items = drop (nat b) (drop (nat i) items)"
      using less.prems by (simp add: nat_add_distrib add.commute)
    ultimately show ?thesis
      using True d less.prems
      by (subst createBatches_loop.simps) (simp add: js_slice_group groups_Cons)
  next
    case False
    then have "drop (nat i) items = []" using less.prems by auto
    with False show ?thesis
      by (subst createBatches_loop.simps) simp
  qed
qed

lemma createBatches_returns:
  "0 < b \<Longrightarrow> createBatches items b = Some (groups (nat b) items)"
  by (simp add: createBatches_def createBatches_loop_returns)

lemma createBatches_loop_partial:
  assumes "createBatches_loop items b i acc = Some y"
  shows "(b \<le> 0 \<longrightarrow> int (length items) \<le> i \<and> y = acc) \<and>
         (0 < b \<longrightarrow> 0 \<le> i \<longrightarrow> y = acc @ groups (nat b) (drop (nat i) items))"
proof -
  let ?P = "\<lambda>(items :: 'a list) (b :: int) (i :: int) (acc :: 'a list list) (y :: 'a list list).
              (b \<le> 0 \<longrightarrow> int (length items) \<le> i \<and> y = acc) \<and>
              (0 < b \<longrightarrow> 0 \<le> i \<longrightarrow> y = acc @ groups (nat b) (drop (nat i) items))"
  have "?P items b i acc y"
  proof (rule createBatches_loop.raw_induct[where P = ?P, OF _ assms])
    fix f :: "'a list \<Rightarrow> int \<Rightarrow> int \<Rightarrow> 'a list list \<Rightarrow> 'a list list option"
    fix items b i acc y
    assume hyp: "\<And>items b i acc y. f items b i acc = Some y \<Longrightarrow> ?P items b i acc y"
      and eq: "(if i < int (length items)
                then f items b (i + b) (acc @ [js_slice items i (i + b)])
                else Some acc) = Some y"
    show "?P items b i acc y"
    proof (cases "i < int (length items)")
      case True
      with eq have r: "f items b (i + b) (acc @ [js_slice items i (i + b)]) = Some y" by simp
      note ih = hyp[OF r]
      have neg: "\<not> b \<le> 0"
      proof
        assume "b \<le> 0"
        with ih have "int (length items) \<le> i + b" by blast
        with \<open>b \<le> 0\<close> True show False by simp
      qed
      moreover have "y = acc @ groups (nat b) (drop (nat i) items)" if "0 \<le> i"
      proof -
        have b: "0 < b" using neg by simp
        have d: "drop (nat i) items \<noteq> []" using True that by auto
        have dd: "drop (nat (i + b)) items = drop (nat b) (drop (nat i) items)"
          using that b by (simp add: nat_add_distrib add.commute)
        have sl: "js_slice items i (i + b) = take (nat b) (drop (nat i) items)"
          using that True b by (rule js_slice_group)
        have g: "groups (nat b) (drop (nat i) items) =
                   take (nat b) (drop (nat i) items) # groups (nat b) (drop (nat b) (drop (nat i) items))"
          using b d by (intro groups_Cons) simp_all
        from ih b that
        have "y = (acc @ [js_slice items i (i + b)]) @ groups (nat b) (drop (nat (i + b)) items)"
          by simp
        then show ?thesis unfolding sl dd g by simp
      qed
      ultimately show ?thesis by simp
    next
      case False
      with eq have "y = acc" by simp
      moreover have "0 \<le> i \<Longrightarrow> drop (nat i) items = []" using False by auto
      ultimately show ?thesis using False by simp
    qed
  qed
  then show ?thesis by simp
qed

lemma createBatches_concat:
  assumes "createBatches items b = Some batches"
  shows "concat batches = items"
proof -
  from assms have l: "createBatches_loop items b 0 [] = Some batches"
    by (simp add: createBatches_def)
  note p = createBatches_loop_partial[OF l]
  show ?thesis
  proof (cases "0 < b")
    case True
    with p have "batches = groups (nat b) items" by simp
    with True show ?thesis by (simp add: concat_groups)
  next
    case False
    with p have "length items = 0" and "batches = []" by simp_all
    then show ?thesis by simp
  qed
qed

text \<open>With a batch size that is not positive the loop does not return on a list that is
  not empty, and neither does \<^verbatim>\<open>processFiles\<close>.\<close>

lemma createBatches_diverges:
  assumes "b \<le> 0" "items \<noteq> []"
  shows "createBatches items b = None"
proof (cases "createBatches items b")
  case None
  then show ?thesis .
next
  case (Some y)
  then have "createBatches_loop items b 0 [] = Some y" by (simp add: createBatches_def)
  from createBatches_loop_partial[OF this] assms show ?thesis by simp
qed

lemma processFiles_diverges:
  assumes "concurrency bp \<le> 0" "files \<noteq> []" "fs_mkdir w (outputDir bp) = None"
  shows "processFiles w bp files = None"
  using assms by (simp add: processFiles_def createBatches_diverges)

section \<open>Failure isolation\<close>

text \<open>With files found, \<^verbatim>\<open>processDirectory\<close> is \<^verbatim>\<open>processFiles\<close> on them: what
  is proved of \<^verbatim>\<open>processFiles\<close> below holds of \<^verbatim>\<open>processDirectory\<close> too.\<close>

lemma processDirectory_files:
  assumes "glob w (path_join w (path_join w directory ''**'') pattern) = Inr files"
    and "files \<noteq> []"
  shows "processDirectory w bp directory pattern = processFiles w bp files"
  using assms by (simp add: processDirectory_def)

lemma processFile_file: "processFile w bp f = Inr r \<Longrightarrow> jr_file r = f"
  by (auto simp: processFile_def Let_def split: sum.splits)

lemma settle_success:
  "processFile w bp f = Inr r \<Longrightarrow>
   settle w bp st f = (None, st\<lparr>results := results st @ [r], events := events st @ [Settle f]\<rparr>)"
  by (simp add: settle_def)

lemma settle_failure:
  "processFile w bp f = Inl e \<Longrightarrow>
   settle w bp st f =
     (if continueOnError bp then None else Some e,
      st\<lparr>errors := errors st @ [\<lparr>je_file = f, je_error = message e, je_timestamp = toISOString w f\<rparr>],
         events := events st @ [Settle f]\<rparr>)"
  by (simp add: settle_def Let_def)

lemma awaitAll_continue:
  assumes "continueOnError bp"
  shows "\<exists>st'. awaitAll w bp st fs = (None, st') \<and>
           map jr_file (results st') = map jr_file (results st) @ filter (jobSucceeds w bp) fs \<and>
           map je_file (errors st') = map je_file (errors st) @ filter (\<lambda>f. \<not> jobSucceeds w bp f) fs \<and>
           events st' = events st @ map Settle fs"
proof (induction fs arbitrary: st)
  case Nil
  show ?case by simp
next
  case (Cons f fs)
  show ?case
  proof (cases "processFile w bp f")
    case (Inr r)
    let ?st1 = "st\<lparr>results := results st @ [r], events := events st @ [Settle f]\<rparr>"
    from Cons.IH[of ?st1] obtain st' where
      "awaitAll w bp ?st1 fs = (None, st')"
      "map jr_file (results st') = map jr_file (results ?st1) @ filter (jobSucceeds w bp) fs"
      "map je_file (errors st') = map je_file (errors ?st1) @ filter (\<lambda>f. \<not> jobSucceeds w bp f) fs"
      "events st' = events ?st1 @ map Settle fs"
      by blast
    moreover have "jobSucceeds w bp f" using Inr by (simp add: jobSucceeds_def)
    ultimately show ?thesis using Inr
      by (simp add: settle_success processFile_file)
  next
    case (Inl e)
    let ?st1 = "st\<lparr>errors := errors st @ [\<lparr>je_file = f, je_error = message e, je_timestamp = toISOString w f\<rparr>],
         events := events st @ [Settle f]\<rparr>"
    from Cons.IH[of ?st1] obtain st' where
      "awaitAll w bp ?st1 fs = (None, st')"
      "map jr_file (results st') = map jr_file (results ?st1) @ filter (jobSucceeds w bp) fs"
      "map je_file (errors st') = map je_file (errors ?st1) @ filter (\<lambda>f. \<not> jobSucceeds w bp f) fs"
      "events st' = events ?st1 @ map Settle fs"
      by blast
    moreover have "\<not> jobSucceeds w bp f" using Inl by (simp add: jobSucceeds_def)
    ultimately show ?thesis using Inl assms
      by (simp add: settle_failure)
  qed
qed

lemma runBatch_continue:
  assumes "continueOnError bp"
  shows "\<exists>st'. runBatch w bp st batch = (None, st') \<and>
           mset (map jr_file (results st')) =
             mset (map jr_file (results st)) + filter_mset (jobSucceeds w bp) (mset batch) \<and>
           mset (map je_file (errors st')) =
             mset (map je_file (errors st)) + filter_mset (\<lambda>f. \<not> jobSucceeds w bp f) (mset batch)"
proof -
  let ?st0 = "st\<lparr>events := events st @ map Launch batch\<rparr>"
  from awaitAll_continue[OF assms, of w ?st0 "completionOrder w batch"]
  obtain st' where a: "awaitAll w bp ?st0 (completionOrder w batch) = (None, st')"
    and r: "map jr_file (results st') =
              map jr_file (results ?st0) @ filter (jobSucceeds w bp) (completionOrder w batch)"
    and e: "map je_file (errors st') =
              map je_file (errors ?st0) @ filter (\<lambda>f. \<not> jobSucceeds w bp f) (completionOrder w batch)"
    by blast
  have m: "mset (completionOrder w batch) = mset batch"
    by (simp add: completionOrder_def)
  have "mset (map jr_file (results st')) =
          mset (map jr_file (results st)) + filter_mset (jobSucceeds w bp) (mset batch)"
    using arg_cong[OF r, of mset] m by simp
  moreover have "mset (map je_file (errors st')) =
          mset (map je_file (errors st)) + filter_mset (\<lambda>f. \<not> jobSucceeds w bp f) (mset batch)"
    using arg_cong[OF e, of mset] m by simp
  ultimately show ?thesis using a by (simp add: runBatch_def)
qed

lemma runBatches_continue:
  assumes "continueOnError bp"
  shows "\<exists>st'. runBatches w bp st batches = (None, st') \<and>
           mset (map jr_file (results st')) =
             mset (map jr_file (results st)) + filter_mset (jobSucceeds w bp) (mset (concat batches)) \<and>
           mset (map je_file (errors st')) =
             mset (map je_file (errors st)) +
             filter_mset (\<lambda>f. \<not> jobSucceeds w bp f) (mset (concat batches))"
proof (induction batches arbitrary: st)
  case Nil
  show ?case by simp
next
  case (Cons b bs)
  from runBatch_continue[OF assms, of w st b] obtain st1 where
    1: "runBatch w bp st b = (None, st1)"
    "mset (map jr_file (results st1)) =
             mset (map jr_file (results st)) + filter_mset (jobSucceeds w bp) (mset b)"
    "mset (map je_file (errors st1)) =
             mset (map je_file (errors st)) + filter_mset (\<lambda>f. \<not> jobSucceeds w bp f) (mset b)"
    by blast
  from Cons.IH[of st1] obtain st' where
    2: "runBatches w bp st1 bs = (None, st')"
    "mset (map jr_file (results st')) =
             mset (map jr_file (results st1)) + filter_mset (jobSucceeds w bp) (mset (concat bs))"
    "mset (map je_file (errors st')) =
             mset (map je_file (errors st1)) +
             filter_mset (\<lambda>f. \<not> jobSucceeds w bp f) (mset (concat bs))"
    by blast
  from 1 2 show ?case by simp
qed

lemma saveReport_arrays:
  "saveReport w bp st rep = (r, st') \<Longrightarrow> results st' = results st \<and> errors st' = errors st"
  by (auto simp: saveReport_def Let_def split: option.splits sum.splits)

text \<open>
  Claim C1.  With \<^verbatim>\<open>continueOnError\<close> set, a positive concurrency and an output
  directory that can be created, \<^verbatim>\<open>processFiles\<close> returns for every list of files and
  every pattern of failures, and it has then recorded exactly one outcome for each job: the
  files of the recorded results are the files whose job succeeds, the files of the recorded
  errors are the files whose job fails (as multisets, so a path listed twice is counted
  twice), and the two together are as many as the jobs.  No failure takes the result of a
  job that succeeds out of \<^verbatim>\<open>results\<close>.  No failure of a job is thrown to the caller:
  what is returned holds the recorded results and errors, and the only error that can be
  thrown is one of saving the report.
\<close>

theorem failure_isolation:
  assumes "continueOnError bp" and "0 < concurrency bp" and "fs_mkdir w (outputDir bp) = None"
  shows "\<exists>r st. processFiles w bp files = Some (r, st) \<and>
           length (results st) + length (errors st) = length files \<and>
           mset (map jr_file (results st)) = filter_mset (jobSucceeds w bp) (mset files) \<and>
           mset (map je_file (errors st)) = filter_mset (\<lambda>f. \<not> jobSucceeds w bp f) (mset files) \<and>
           (\<forall>out. r = Inr out \<longrightarrow> bo_results out = results st \<and> bo_errors out = errors st) \<and>
           (\<forall>e. r = Inl e \<longrightarrow> (\<exists>st1 rep. saveReport w bp st1 rep = (Some e, st)))"
proof -
  let ?batches = "groups (nat (concurrency bp)) files"
  let ?st0 = "start\<lparr>events := [Mkdir (outputDir bp)]\<rparr>"
  have cb: "createBatches files (concurrency bp) = Some ?batches"
    using assms(2) by (rule createBatches_returns)
  have cc: "concat ?batches = files"
    using assms(2) by (simp add: concat_groups)
  from runBatches_continue[OF assms(1), of w ?st0 ?batches] cc obtain st1 where
    rb: "runBatches w bp ?st0 ?batches = (None, st1)"
    and r: "mset (map jr_file (results st1)) = filter_mset (jobSucceeds w bp) (mset files)"
    and e: "mset (map je_file (errors st1)) = filter_mset (\<lambda>f. \<not> jobSucceeds w bp f) (mset files)"
    by (auto simp: start_def)
  define rep where "rep = \<lparr> br_results = results st1, br_errors = errors st1,
     br_duration = Num (of_int (batch_ms w) / 1000), br_totalFiles = length files,
     br_successful = length (results st1), br_failed = length (errors st1) \<rparr>"
  obtain x st2 where sr: "saveReport w bp st1 rep = (x, st2)" by (cases "saveReport w bp st1 rep")
  from saveReport_arrays[OF sr] have same: "results st2 = results st1" "errors st2 = errors st1"
    by simp_all
  have "size (mset (map jr_file (results st1))) + size (mset (map je_file (errors st1))) = size (mset files)"
    unfolding r e by (metis multiset_partition size_union)
  then have len: "length (results st1) + length (errors st1) = length files" by simp
  define res where "res = (case x of
      Some err \<Rightarrow> Inl err
    | None \<Rightarrow> Inr \<lparr> bo_results = results st2, bo_errors = errors st2,
                     bo_duration = Some (Num (of_int (batch_ms w) / 1000)) \<rparr>)"
  have p: "processFiles w bp files = Some (res, st2)"
    using assms(3) cb rb sr by (cases x) (simp_all add: processFiles_def Let_def rep_def res_def)
  have o: "\<forall>out. res = Inr out \<longrightarrow> bo_results out = results st2 \<and> bo_errors out = errors st2"
    by (cases x) (auto simp: res_def)
  have t: "\<forall>err. res = Inl err \<longrightarrow> (\<exists>st1 rep. saveReport w bp st1 rep = (Some err, st2))"
    using sr by (cases x) (auto simp: res_def)
  from p same r e len o t show ?thesis by auto
qed

theorem failure_isolation_witness:
  "\<exists>out st. processFiles demo demo_bp demo_files = Some (Inr out, st) \<and>
          length (results st) + length (errors st) = 5 \<and>
          mset (map jr_file (results st)) = {#''a.mp3'', ''b.mp3'', ''c.mp3'', ''e.mp3''#} \<and>
          mset (map je_file (errors st)) = {#''bad.mp3''#} \<and>
          bo_results out = results st \<and> bo_errors out = errors st"
proof -
  have h1: "continueOnError demo_bp" by (simp add: demo_bp_def BatchProcessor_def)
  have h2: "0 < concurrency demo_bp" by (simp add: demo_bp_def BatchProcessor_def)
  have h3: "fs_mkdir demo (outputDir demo_bp) = None" by (simp add: demo_def)
  have s: "filter (jobSucceeds demo demo_bp) demo_files = [''a.mp3'', ''b.mp3'', ''c.mp3'', ''e.mp3'']"
    by code_simp
  have f: "filter (\<lambda>f. \<not> jobSucceeds demo demo_bp f) demo_files = [''bad.mp3'']"
    by code_simp
  have l: "length demo_files = 5" by (simp add: demo_files_def)
  have i: "map_option (\<lambda>(r, st). isl r) (processFiles demo demo_bp demo_files) = Some False"
    by code_simp
  from failure_isolation[OF h1 h2 h3, of demo_files] obtain r st where
    p: "processFiles demo demo_bp demo_files = Some (r, st)"
    and 1: "length (results st) + length (errors st) = 5"
      "mset (map jr_file (results st)) = {#''a.mp3'', ''b.mp3'', ''c.mp3'', ''e.mp3''#}"
      "mset (map je_file (errors st)) = {#''bad.mp3''#}"
    and o: "\<forall>out. r = Inr out \<longrightarrow> bo_results out = results st \<and> bo_errors out = errors st"
    unfolding l mset_filter[symmetric] s f by auto
  from i p obtain out where "r = Inr out" by (cases r) simp_all
  with p 1 o show ?thesis by auto
qed

section \<open>The report\<close>

lemma reports_append: "reports (st\<lparr>events := events st @ evs\<rparr>) =
   reports st @ concat (map (\<lambda>ev. case ev of WriteFile p (ReportJson rep) \<Rightarrow> [rep] | _ \<Rightarrow> []) evs)"
  by (simp add: reports_def)

lemma settle_effect:
  assumes "settle w bp st f = (x, st')"
  shows "events st' = events st @ [Settle f]"
    and "length (results st') + length (errors st') = Suc (length (results st) + length (errors st))"
  using assms by (auto simp: settle_def Let_def split: sum.splits if_splits)

lemma awaitAll_effect:
  assumes "awaitAll w bp st fs = (x, st')"
  shows "\<exists>k\<le>length fs. events st' = events st @ map Settle (take k fs) \<and>
           length (results st') + length (errors st') = length (results st) + length (errors st) + k \<and>
           (x = None \<longrightarrow> k = length fs)"
  using assms
proof (induction fs arbitrary: st)
  case Nil
  then show ?case by simp
next
  case (Cons f fs)
  obtain y st1 where s: "settle w bp st f = (y, st1)" by (cases "settle w bp st f")
  note e = settle_effect[OF s]
  show ?case
  proof (cases y)
    case None
    with s Cons.prems have "awaitAll w bp st1 fs = (x, st')" by simp
    from Cons.IH[OF this] obtain k where k: "k \<le> length fs"
      "events st' = events st1 @ map Settle (take k fs)"
      "length (results st') + length (errors st') = length (results st1) + length (errors st1) + k"
      "x = None \<longrightarrow> k = length fs" by blast
    with e show ?thesis by (intro exI[of _ "Suc k"]) simp
  next
    case (Some err)
    with s Cons.prems have "x = Some err" "st' = st1" by simp_all
    with e show ?thesis by (intro exI[of _ "Suc 0"]) simp
  qed
qed

lemma runBatch_effect:
  assumes "runBatch w bp st b = (x, st')"
  shows "\<exists>k\<le>length b. events st' = events st @ map Launch b @ map Settle (take k (completionOrder w b)) \<and>
           length (results st') + length (errors st') = length (results st) + length (errors st) + k \<and>
           (x = None \<longrightarrow> k = length b)"
proof -
  have l: "length (completionOrder w b) = length b" by (simp add: completionOrder_def)
  from assms have "awaitAll w bp (st\<lparr>events := events st @ map Launch b\<rparr>) (completionOrder w b) = (x, st')"
    by (simp add: runBatch_def)
  from awaitAll_effect[OF this] l show ?thesis by simp
qed

lemma reports_events:
  "events st' = events st @ map Launch b @ map Settle c \<Longrightarrow> reports st' = reports st"
  by (induction c arbitrary: st') (simp_all add: reports_def)

lemma runBatches_finished:
  assumes "runBatches w bp st bs = (x, st')"
  shows "reports st' = reports st \<and>
         (x = None \<longrightarrow> length (results st') + length (errors st') =
             length (results st) + length (errors st) + length (concat bs))"
  using assms
proof (induction bs arbitrary: st)
  case Nil
  then show ?case by simp
next
  case (Cons b bs)
  obtain y st1 where r: "runBatch w bp st b = (y, st1)" by (cases "runBatch w bp st b")
  from runBatch_effect[OF r] obtain k where k: "k \<le> length b"
    "events st1 = events st @ map Launch b @ map Settle (take k (completionOrder w b))"
    "length (results st1) + length (errors st1) = length (results st) + length (errors st) + k"
    "y = None \<longrightarrow> k = length b" by blast
  from k(2) have rp: "reports st1 = reports st" by (rule reports_events)
  show ?case
  proof (cases y)
    case None
    with r Cons.prems have "runBatches w bp st1 bs = (x, st')" by simp
    from Cons.IH[OF this] k None rp show ?thesis by simp
  next
    case (Some err)
    with r Cons.prems have "x = Some err" "st' = st1" by simp_all
    with rp show ?thesis by simp
  qed
qed

lemma saveReport_reports:
  "saveReport w bp st rep = (x, st') \<Longrightarrow> set (reports st') \<subseteq> insert rep (set (reports st))"
  by (auto simp: saveReport_def Let_def reports_def split: option.splits sum.splits)

text \<open>
  Claim C2.  Whenever \<^verbatim>\<open>processFiles\<close> returns (normally or by throwing) and a report
  has been written, the report's \<^verbatim>\<open>totalFiles\<close> is the number of its results plus the
  number of its errors, and \<^verbatim>\<open>successful\<close> and \<^verbatim>\<open>failed\<close> are these two numbers.
  This holds for every configuration: with a batch size that is not positive the call
  returns only for the empty list.
\<close>

theorem report_total:
  assumes "processFiles w bp files = Some (r, st)" and "rep \<in> set (reports st)"
  shows "br_totalFiles rep = length (br_results rep) + length (br_errors rep) \<and>
         br_successful rep = length (br_results rep) \<and>
         br_failed rep = length (br_errors rep)"
proof (cases "fs_mkdir w (outputDir bp)")
  case (Some e)
  with assms(1) have "st = start" by (simp add: processFiles_def)
  with assms(2) show ?thesis by (simp add: reports_def start_def)
next
  case None
  let ?st0 = "start\<lparr>events := [Mkdir (outputDir bp)]\<rparr>"
  have r0: "reports ?st0 = []" by (simp add: reports_def)
  from assms(1) None obtain batches where cb: "createBatches files (concurrency bp) = Some batches"
    by (cases "createBatches files (concurrency bp)") (simp_all add: processFiles_def)
  then have cc: "concat batches = files" by (rule createBatches_concat)
  obtain x st1 where rb: "runBatches w bp ?st0 batches = (x, st1)"
    by (cases "runBatches w bp ?st0 batches")
  note f = runBatches_finished[OF rb]
  show ?thesis
  proof (cases x)
    case (Some e)
    with assms(1) None cb rb have "st = st1" by (simp add: processFiles_def)
    with f r0 assms(2) show ?thesis by simp
  next
    case xn: None
    define rep0 where "rep0 = \<lparr> br_results = results st1, br_errors = errors st1,
       br_duration = Num (of_int (batch_ms w) / 1000), br_totalFiles = length files,
       br_successful = length (results st1), br_failed = length (errors st1) \<rparr>"
    obtain y st2 where sr: "saveReport w bp st1 rep0 = (y, st2)" by (cases "saveReport w bp st1 rep0")
    have "st = st2"
      using assms(1) None cb rb xn sr by (cases y) (simp_all add: processFiles_def Let_def rep0_def)
    with saveReport_reports[OF sr] f r0 assms(2) have "rep = rep0" by auto
    moreover have "length (results st1) + length (errors st1) = length files"
      using f xn cc by (simp add: start_def)
    ultimately show ?thesis by (simp add: rep0_def)
  qed
qed

theorem report_total_witness:
  "\<exists>r st rep. processFiles demo demo_bp demo_files = Some (r, st) \<and> rep \<in> set (reports st) \<and>
      br_totalFiles rep = 5 \<and> length (br_results rep) + length (br_errors rep) = 5"
proof -
  have "map_option (\<lambda>(r, st). map br_totalFiles (reports st)) (processFiles demo demo_bp demo_files) = Some [5]"
    by code_simp
  then obtain r st rep where p: "processFiles demo demo_bp demo_files = Some (r, st)"
    and m: "reports st = [rep]" and t: "br_totalFiles rep = 5"
    by (auto simp: map_eq_Cons_conv)
  from m have "rep \<in> set (reports st)" by simp
  from report_total[OF p this] p this t show ?thesis by auto
qed

section \<open>The constructor\<close>

text \<open>
  Claim C10.  The constructor sets \<^verbatim>\<open>continueOnError\<close> for every value of the option
  but the boolean \<^verbatim>\<open>false\<close>: a missing option (\<^verbatim>\<open>undefined\<close>), \<^verbatim>\<open>null\<close>,
  \<^verbatim>\<open>0\<close> and the empty string all leave it set.  So the promise of a job that fails
  is rejected, which is what aborts the batch, exactly when the option is \<^verbatim>\<open>false\<close>.
\<close>

theorem continueOnError_default:
  "continueOnError (BatchProcessor opts) = (opt_continueOnError opts \<noteq> JBool False) \<and>
   (processFile w (BatchProcessor opts) f = Inl e \<longrightarrow>
      fst (settle w (BatchProcessor opts) st f) =
        (if opt_continueOnError opts = JBool False then Some e else None))"
proof -
  have c: "continueOnError (BatchProcessor opts) = (opt_continueOnError opts \<noteq> JBool False)"
    by (simp add: BatchProcessor_def)
  have "fst (settle w (BatchProcessor opts) st f) =
          (if opt_continueOnError opts = JBool False then Some e else None)"
    if "processFile w (BatchProcessor opts) f = Inl e"
    using settle_failure[OF that, of st] c by simp
  with c show ?thesis by blast
qed

theorem continueOnError_default_witness:
  "continueOnError demo_null \<and>
   processFile demo demo_null ''bad.mp3'' = Inl (Error ''Transcription error: Command failed'') \<and>
   fst (settle demo demo_null start ''bad.mp3'') = None"
proof -
  have p: "processFile demo demo_null ''bad.mp3'' = Inl (Error ''Transcription error: Command failed'')"
    by code_simp
  from continueOnError_default[of "\<lparr> opt_concurrency = None, opt_outputDir = None,
                      opt_continueOnError = JNull \<rparr>" demo "''bad.mp3''" _ start] p
  show ?thesis by (simp add: demo_null_def)
qed

section \<open>An empty directory\<close>



section \<open>Audio metadata\<close>

lemma getAudioInfo_total: "\<exists>info. getAudioInfo w audioPath = Inr info"
  by (simp add: getAudioInfo_def split: sum.splits)

lemma getProp_language: "getProp t ''text'' = Inr txt \<Longrightarrow> \<exists>l. getProp t ''language'' = Inr l"
  by (cases t) simp_all

text \<open>
  Claim C9.  In every world, so whatever the probing tool does, \<^verbatim>\<open>getAudioInfo\<close> does
  not throw: it returns a record or \<^verbatim>\<open>null\<close>.  When it returns \<^verbatim>\<open>null\<close> the job
  goes on to the transcription, and if that returns a transcript (one whose \<^verbatim>\<open>text\<close>
  can be read) the job succeeds with a result whose duration is absent and whose speed ratio
  is \<^verbatim>\<open>null\<close>.
\<close>

theorem audio_metadata_best_effort:
  "(\<forall>e. getAudioInfo w audioPath \<noteq> Inl e) \<and>
   (getAudioInfo w audioPath = Inr None \<longrightarrow>
    transcribe w audioPath ''json'' (outputDir bp) = Inr t \<longrightarrow>
    getProp t ''text'' = Inr txt \<longrightarrow>
    (\<exists>res. processFile w bp audioPath = Inr res \<and> jr_file res = audioPath \<and>
           jr_duration res = None \<and> jr_speedRatio res = None \<and> jr_text res = txt))"
proof -
  have "\<forall>e. getAudioInfo w audioPath \<noteq> Inl e"
    using getAudioInfo_total[of w audioPath] by auto
  moreover have "\<exists>res. processFile w bp audioPath = Inr res \<and> jr_file res = audioPath \<and>
           jr_duration res = None \<and> jr_speedRatio res = None \<and> jr_text res = txt"
    if "getAudioInfo w audioPath = Inr None"
      "transcribe w audioPath ''json'' (outputDir bp) = Inr t"
      "getProp t ''text'' = Inr txt"
  proof -
    from getProp_language[OF that(3)] obtain l where "getProp t ''language'' = Inr l" ..
    with that show ?thesis by (simp add: processFile_def Let_def)
  qed
  ultimately show ?thesis by blast
qed

theorem audio_metadata_best_effort_witness:
  "getAudioInfo demo ''c.mp3'' = Inr None \<and>
   (\<exists>res. processFile demo demo_bp ''c.mp3'' = Inr res \<and> jr_file res = ''c.mp3'' \<and>
          jr_duration res = None \<and> jr_speedRatio res = None \<and> jr_text res = JString ''hello'')"
proof -
  have h1: "getAudioInfo demo ''c.mp3'' = Inr None" by code_simp
  have h2: "transcribe demo ''c.mp3'' ''json'' (outputDir demo_bp) =
              Inr (JObject [(''text'', JString ''hello''), (''language'', JString ''en'')])"
    by code_simp
  have h3: "getProp (JObject [(''text'', JString ''hello''), (''language'', JString ''en'')]) ''text'' =
              Inr (JString ''hello'')" by simp
  from audio_metadata_best_effort[of demo "''c.mp3''" demo_bp _ "JString ''hello''"] h1 h2 h3
  show ?thesis by blast
qed

section \<open>The speed ratio\<close>










section \<open>Bounded concurrency and the group barrier\<close>

lemma inFlight_append [simp]: "inFlight (a @ b) = inFlight a + inFlight b"
  by (simp add: inFlight_def)

lemma inFlight_Nil [simp]: "inFlight [] = 0"
  by (simp add: inFlight_def)

lemma inFlight_launches: "inFlight (map Launch b) = int (length b)"
  by (induction b) (simp_all add: inFlight_def)

lemma inFlight_settles: "inFlight (map Settle b) = - int (length b)"
  by (induction b) (simp_all add: inFlight_def)

lemma inFlight_group:
  assumes "k \<le> length b"
  shows "0 \<le> inFlight (take n (map Launch b @ map Settle (take k c))) \<and>
         inFlight (take n (map Launch b @ map Settle (take k c))) \<le> int (length b)"
proof -
  have "take n (map Launch b @ map Settle (take k c)) =
          map Launch (take n b) @ map Settle (take (n - length b) (take k c))"
    by (simp add: take_map)
  then have "inFlight (take n (map Launch b @ map Settle (take k c))) =
          int (length (take n b)) - int (length (take (n - length b) (take k c)))"
    by (simp add: inFlight_launches inFlight_settles)
  moreover have "length (take (n - length b) (take k c)) \<le> length (take n b)"
    using assms by (cases "n \<le> length b") auto
  moreover have "length (take n b) \<le> length b" by simp
  ultimately show ?thesis by linarith
qed

lemma bounded_group:
  assumes "bounded c E" "inFlight E = 0" "k \<le> length b" "int (length b) \<le> c"
  shows "bounded c (E @ map Launch b @ map Settle (take k s))"
proof -
  define S where "S = map Launch b @ map Settle (take k s)"
  have S: "0 \<le> inFlight (take m S) \<and> inFlight (take m S) \<le> int (length b)" for m
    unfolding S_def using assms(3) by (rule inFlight_group)
  have "0 \<le> inFlight (take n (E @ S)) \<and> inFlight (take n (E @ S)) \<le> c" for n
  proof (cases "n \<le> length E")
    case True
    then have t: "take n (E @ S) = take n E" by simp
    show ?thesis unfolding t using assms(1) by (simp add: bounded_def)
  next
    case False
    then have t: "take n (E @ S) = E @ take (n - length E) S" by simp
    show ?thesis unfolding t using S[of "n - length E"] assms(2,4) by simp
  qed
  then show ?thesis unfolding bounded_def S_def by blast
qed

lemma barrier_group:
  assumes "barrier E" "inFlight E = 0"
  shows "barrier (E @ map Launch b @ map Settle s)"
  unfolding barrier_def
proof (intro allI impI)
  fix n
  let ?evs = "E @ map Launch b @ map Settle s"
  assume n: "n < length ?evs" and l: "isLaunch (?evs ! n)"
    and first: "n = 0 \<or> \<not> isLaunch (?evs ! (n - 1))"
  consider "n < length E" | "n = length E" | "length E < n" "n < length E + length b"
    | "length E + length b \<le> n" by linarith
  then show "inFlight (take n ?evs) = 0"
  proof cases
    case 1
    then have "n - 1 < length E" by simp
    with 1 have "?evs ! n = E ! n" "?evs ! (n - 1) = E ! (n - 1)" "take n ?evs = take n E"
      by (simp_all add: nth_append)
    with assms(1) 1 l first show ?thesis unfolding barrier_def by metis
  next
    case 2
    with assms(2) show ?thesis by simp
  next
    case 3
    define m where "m = n - 1 - length E"
    from 3 have m: "n - 1 = length E + m" "m < length b" and "n \<noteq> 0"
      by (simp_all add: m_def)
    have "?evs ! (n - 1) = (map Launch b @ map Settle s) ! m"
      unfolding m(1) by (rule nth_append_length_plus)
    also have "\<dots> = Launch (b ! m)" using m(2) by (simp add: nth_append)
    finally have "isLaunch (?evs ! (n - 1))" by simp
    with first \<open>n \<noteq> 0\<close> show ?thesis by simp
  next
    case 4
    define m where "m = n - length E - length b"
    from 4 n have m: "n = length E + (length b + m)" "m < length s"
      by (simp_all add: m_def)
    have "?evs ! n = (map Launch b @ map Settle s) ! (length b + m)"
      by (subst m(1)) (rule nth_append_length_plus)
    also have "\<dots> = map Settle s ! m"
      using nth_append_length_plus[of "map Launch b" "map Settle s" m] by simp
    also have "\<dots> = Settle (s ! m)" using m(2) by simp
    finally show ?thesis using l by simp
  qed
qed

lemma inFlight_neutral: "\<forall>ev\<in>set W. delta ev = 0 \<Longrightarrow> inFlight W = 0"
  by (induction W) (simp_all add: inFlight_def)

lemma bounded_neutral:
  assumes "bounded c E" "\<forall>ev\<in>set W. delta ev = 0"
  shows "bounded c (E @ W)"
  unfolding bounded_def
proof
  fix n
  have "\<forall>ev\<in>set (take (n - length E) W). delta ev = 0"
    using assms(2) by (meson in_set_takeD)
  then have "inFlight (take (n - length E) W) = 0"
    by (rule inFlight_neutral)
  then have "inFlight (take n (E @ W)) = inFlight (take n E)" by simp
  with assms(1) show "0 \<le> inFlight (take n (E @ W)) \<and> inFlight (take n (E @ W)) \<le> c"
    by (simp add: bounded_def)
qed

lemma barrier_neutral:
  assumes "barrier E" "\<forall>ev\<in>set W. \<not> isLaunch ev"
  shows "barrier (E @ W)"
  unfolding barrier_def
proof (intro allI impI)
  fix n
  assume n: "n < length (E @ W)" and l: "isLaunch ((E @ W) ! n)"
    and first: "n = 0 \<or> \<not> isLaunch ((E @ W) ! (n - 1))"
  have "n < length E"
  proof (rule ccontr)
    assume "\<not> n < length E"
    with n have "(E @ W) ! n \<in> set W" by (simp add: nth_append)
    with assms(2) l show False by blast
  qed
  moreover from this have "n - 1 < length E" by simp
  ultimately have "(E @ W) ! n = E ! n" "(E @ W) ! (n - 1) = E ! (n - 1)" "take n (E @ W) = take n E"
    by (simp_all add: nth_append)
  with assms(1) \<open>n < length E\<close> l first show "inFlight (take n (E @ W)) = 0"
    unfolding barrier_def by metis
qed

lemma runBatches_events:
  assumes "\<forall>b\<in>set bs. int (length b) \<le> c" "bounded c (events st)" "barrier (events st)"
    "inFlight (events st) = 0" "runBatches w bp st bs = (x, st')"
  shows "bounded c (events st') \<and> barrier (events st') \<and> (x = None \<longrightarrow> inFlight (events st') = 0)"
  using assms
proof (induction bs arbitrary: st)
  case Nil
  then show ?case by simp
next
  case (Cons b bs)
  obtain y st1 where r: "runBatch w bp st b = (y, st1)" by (cases "runBatch w bp st b")
  from runBatch_effect[OF r] obtain k where k: "k \<le> length b"
    "events st1 = events st @ map Launch b @ map Settle (take k (completionOrder w b))"
    "y = None \<longrightarrow> k = length b" by blast
  have lb: "int (length b) \<le> c" using Cons.prems(1) by simp
  have b1: "bounded c (events st1)"
    unfolding k(2) using Cons.prems(2,4) k(1) lb by (rule bounded_group)
  have b2: "barrier (events st1)"
    unfolding k(2) using Cons.prems(3,4) by (rule barrier_group)
  have l: "length (completionOrder w b) = length b" by (simp add: completionOrder_def)
  have z: "inFlight (events st1) = 0" if "y = None"
    using k(3) that Cons.prems(4) l by (simp add: k(2) inFlight_launches inFlight_settles)
  show ?case
  proof (cases y)
    case None
    with r Cons.prems(5) have "runBatches w bp st1 bs = (x, st')" by simp
    moreover have "\<forall>b\<in>set bs. int (length b) \<le> c" using Cons.prems(1) by simp
    ultimately show ?thesis using b1 b2 z[OF None] Cons.IH by blast
  next
    case (Some err)
    with r Cons.prems(5) have "x = Some err" "st' = st1" by simp_all
    with b1 b2 show ?thesis by simp
  qed
qed

lemma saveReport_events:
  assumes "saveReport w bp st rep = (x, st')"
  shows "\<exists>W. events st' = events st @ W \<and> (\<forall>ev\<in>set W. delta ev = 0 \<and> \<not> isLaunch ev)"
proof -
  from assms have "events st' = events st \<or>
     (\<exists>p c. events st' = events st @ [WriteFile p c]) \<or>
     (\<exists>p c q d. events st' = events st @ [WriteFile p c, WriteFile q d])"
    by (auto simp: saveReport_def Let_def split: option.splits sum.splits)
  then show ?thesis
  proof (elim disjE exE)
    assume "events st' = events st"
    then show ?thesis by (intro exI[of _ "[]"]) simp
  next
    fix p c assume "events st' = events st @ [WriteFile p c]"
    then show ?thesis by (intro exI[of _ "[WriteFile p c]"]) simp
  next
    fix p c q d assume "events st' = events st @ [WriteFile p c, WriteFile q d]"
    then show ?thesis by (intro exI[of _ "[WriteFile p c, WriteFile q d]"]) simp
  qed
qed

text \<open>
  Claim C4.  With a positive concurrency \<^verbatim>\<open>processFiles\<close> returns, and in the events
  of its run the number of jobs in flight is, after every prefix, between 0 and the
  concurrency; and whenever a launch does not directly follow another launch (it is the
  first launch of a group) no job is in flight: every job of the groups before has settled.
\<close>

theorem bounded_concurrency:
  assumes "0 < concurrency bp"
  shows "\<exists>r st. processFiles w bp files = Some (r, st) \<and>
           (\<forall>n. 0 \<le> inFlight (take n (events st)) \<and>
                inFlight (take n (events st)) \<le> concurrency bp) \<and>
           (\<forall>n. n < length (events st) \<longrightarrow> isLaunch (events st ! n) \<longrightarrow>
                (n = 0 \<or> \<not> isLaunch (events st ! (n - 1))) \<longrightarrow>
                inFlight (take n (events st)) = 0)"
proof -
  let ?c = "concurrency bp"
  have goal: "\<exists>r. processFiles w bp files = Some (r, st) \<Longrightarrow> bounded ?c (events st) \<Longrightarrow> barrier (events st) \<Longrightarrow> ?thesis" for st
    unfolding bounded_def barrier_def by blast
  show ?thesis
  proof (cases "fs_mkdir w (outputDir bp)")
    case (Some e)
    then have "processFiles w bp files = Some (Inl e, start)" by (simp add: processFiles_def)
    moreover have "bounded ?c (events start)" "barrier (events start)"
      using assms by (simp_all add: bounded_def barrier_def start_def)
    ultimately show ?thesis using goal by blast
  next
    case None
    let ?batches = "groups (nat ?c) files"
    let ?st0 = "start\<lparr>events := [Mkdir (outputDir bp)]\<rparr>"
    have cb: "createBatches files ?c = Some ?batches"
      using assms by (rule createBatches_returns)
    have sz: "\<forall>b\<in>set ?batches. int (length b) \<le> ?c"
      using groups_bounded[of _ "nat ?c" files] assms by fastforce
    have i0: "inFlight (take n [Mkdir (outputDir bp)]) = 0" for n
      by (cases n) (simp_all add: inFlight_def)
    have b0: "bounded ?c (events ?st0)" using assms i0 by (simp add: bounded_def)
    have r0: "barrier (events ?st0)" using i0 by (simp add: barrier_def)
    have z0: "inFlight (events ?st0) = 0" by (simp add: inFlight_def)
    obtain x st1 where rb: "runBatches w bp ?st0 ?batches = (x, st1)"
      by (cases "runBatches w bp ?st0 ?batches")
    note ev = runBatches_events[OF sz b0 r0 z0 rb]
    show ?thesis
    proof (cases x)
      case (Some e)
      with None cb rb have "processFiles w bp files = Some (Inl e, st1)"
        by (simp add: processFiles_def)
      with ev goal show ?thesis by blast
    next
      case xn: None
      define rep0 where "rep0 = \<lparr> br_results = results st1, br_errors = errors st1,
         br_duration = Num (of_int (batch_ms w) / 1000), br_totalFiles = length files,
         br_successful = length (results st1), br_failed = length (errors st1) \<rparr>"
      obtain y st2 where sr: "saveReport w bp st1 rep0 = (y, st2)" by (cases "saveReport w bp st1 rep0")
      have p: "\<exists>r. processFiles w bp files = Some (r, st2)"
        using None cb rb xn sr by (cases y) (simp_all add: processFiles_def Let_def rep0_def)
      from saveReport_events[OF sr] obtain W where W: "events st2 = events st1 @ W"
        "\<forall>ev\<in>set W. delta ev = 0 \<and> \<not> isLaunch ev" by blast
      have "bounded ?c (events st2)" unfolding W(1) using ev W(2) by (intro bounded_neutral) simp_all
      moreover have "barrier (events st2)" unfolding W(1) using ev W(2) by (intro barrier_neutral) simp_all
      ultimately show ?thesis using p goal by blast
    qed
  qed
qed

theorem bounded_concurrency_witness:
  "0 < concurrency demo_bp \<and>
   (\<exists>r st. processFiles demo demo_bp demo_files = Some (r, st) \<and>
      (\<forall>n. 0 \<le> inFlight (take n (events st)) \<and> inFlight (take n (events st)) \<le> 2) \<and>
      length (events st) = 13)"
proof -
  have h: "0 < concurrency demo_bp" by (simp add: demo_bp_def BatchProcessor_def)
  have c: "concurrency demo_bp = 2" by (simp add: demo_bp_def BatchProcessor_def)
  have l: "map_option (\<lambda>(r, st). length (events st)) (processFiles demo demo_bp demo_files) = Some 13"
    by code_simp
  from bounded_concurrency[OF h, of demo demo_files] obtain r st where
    p: "processFiles demo demo_bp demo_files = Some (r, st)"
    and b: "\<forall>n. 0 \<le> inFlight (take n (events st)) \<and> inFlight (take n (events st)) \<le> concurrency demo_bp"
    by blast
  from l p have "length (events st) = 13" by simp
  with h p b c show ?thesis by auto
qed

section \<open>Abort on the first failure\<close>

lemma launched_group:
  "events st' = events st @ map Launch b @ map Settle s \<Longrightarrow> launched st' = launched st @ b"
proof -
  have 1: "concat (map (\<lambda>ev. case ev of Launch f \<Rightarrow> [f] | _ \<Rightarrow> []) (map Launch b)) = b"
    by (induction b) simp_all
  have 2: "concat (map (\<lambda>ev. case ev of Launch f \<Rightarrow> [f] | _ \<Rightarrow> []) (map Settle s)) = []"
    by (induction s) simp_all
  assume "events st' = events st @ map Launch b @ map Settle s"
  then show ?thesis using 1 2 by (simp add: launched_def)
qed

lemma awaitAll_all_succeed:
  assumes "\<forall>g\<in>set fs. jobSucceeds w bp g"
  shows "\<exists>st'. awaitAll w bp st fs = (None, st')"
  using assms
proof (induction fs arbitrary: st)
  case Nil
  show ?case by simp
next
  case (Cons f fs)
  then obtain r where "processFile w bp f = Inr r"
    by (cases "processFile w bp f") (simp_all add: jobSucceeds_def)
  with Cons show ?case by (simp add: settle_success)
qed

lemma awaitAll_abort:
  assumes "\<not> continueOnError bp" "\<exists>g\<in>set fs. \<not> jobSucceeds w bp g"
  shows "\<exists>e st'. awaitAll w bp st fs = (Some e, st') \<and> (\<exists>g\<in>set fs. processFile w bp g = Inl e)"
  using assms(2)
proof (induction fs arbitrary: st)
  case Nil
  then show ?case by simp
next
  case (Cons f fs)
  show ?case
  proof (cases "processFile w bp f")
    case (Inl e)
    with assms(1) show ?thesis by (auto simp: settle_failure)
  next
    case (Inr r)
    then have "jobSucceeds w bp f" by (simp add: jobSucceeds_def)
    with Cons.prems have "\<exists>g\<in>set fs. \<not> jobSucceeds w bp g" by auto
    from Cons.IH[OF this] Inr show ?thesis by (auto simp: settle_success)
  qed
qed

lemma set_completionOrder: "set (completionOrder w b) = set b"
  by (simp add: completionOrder_def)

lemma runBatch_all_succeed:
  assumes "\<forall>g\<in>set b. jobSucceeds w bp g"
  shows "\<exists>st'. runBatch w bp st b = (None, st') \<and> launched st' = launched st @ b \<and>
               reports st' = reports st"
proof -
  from assms have "\<forall>g\<in>set (completionOrder w b). jobSucceeds w bp g"
    by (simp only: set_completionOrder)
  from awaitAll_all_succeed[OF this] obtain st' where
    "awaitAll w bp (st\<lparr>events := events st @ map Launch b\<rparr>) (completionOrder w b) = (None, st')"
    by blast
  then have r: "runBatch w bp st b = (None, st')" by (simp add: runBatch_def)
  from runBatch_effect[OF r] obtain k where
    "events st' = events st @ map Launch b @ map Settle (take k (completionOrder w b))" by blast
  with r show ?thesis by (auto simp: launched_group reports_events)
qed

lemma runBatch_abort:
  assumes "\<not> continueOnError bp" "\<exists>g\<in>set b. \<not> jobSucceeds w bp g"
  shows "\<exists>e st'. runBatch w bp st b = (Some e, st') \<and> (\<exists>g\<in>set b. processFile w bp g = Inl e) \<and>
               launched st' = launched st @ b \<and> reports st' = reports st"
proof -
  from assms(2) have "\<exists>g\<in>set (completionOrder w b). \<not> jobSucceeds w bp g"
    by (simp only: set_completionOrder)
  from awaitAll_abort[OF assms(1) this, of "st\<lparr>events := events st @ map Launch b\<rparr>"]
  obtain e st' where
    a: "awaitAll w bp (st\<lparr>events := events st @ map Launch b\<rparr>) (completionOrder w b) = (Some e, st')"
    and g: "\<exists>g\<in>set b. processFile w bp g = Inl e"
    unfolding set_completionOrder by blast
  then have r: "runBatch w bp st b = (Some e, st')" by (simp add: runBatch_def)
  from runBatch_effect[OF r] obtain k where
    "events st' = events st @ map Launch b @ map Settle (take k (completionOrder w b))" by blast
  with r g show ?thesis by (auto simp: launched_group reports_events)
qed

lemma runBatches_abort:
  assumes "\<not> continueOnError bp" "0 < c"
    "\<forall>p\<in>set pre. jobSucceeds w bp p" "\<not> jobSucceeds w bp f"
  shows "\<exists>e st'. runBatches w bp st (groups c (pre @ f # post)) = (Some e, st') \<and>
           (\<exists>g\<in>set (take c (drop (length pre div c * c) (pre @ f # post))). processFile w bp g = Inl e) \<and>
           launched st' = launched st @ take ((length pre div c + 1) * c) (pre @ f # post) \<and>
           reports st' = reports st"
  using assms(3)
proof (induction "length pre" arbitrary: pre st rule: less_induct)
  case less
  let ?files = "pre @ f # post"
  have g: "groups c ?files = take c ?files # groups c (drop c ?files)"
    using assms(2) by (simp add: groups_Cons)
  show ?case
  proof (cases "length pre < c")
    case True
    then have "take c ?files = pre @ f # take (c - length pre - 1) post"
      by (simp add: take_Cons')
    then have "f \<in> set (take c ?files)" by simp
    with assms(4) have "\<exists>g\<in>set (take c ?files). \<not> jobSucceeds w bp g" by blast
    from runBatch_abort[OF assms(1) this, of st] obtain e st' where
      "runBatch w bp st (take c ?files) = (Some e, st')"
      "\<exists>g\<in>set (take c ?files). processFile w bp g = Inl e"
      "launched st' = launched st @ take c ?files" "reports st' = reports st"
      by blast
    moreover have "length pre div c = 0" using True by simp
    ultimately show ?thesis unfolding g by simp
  next
    case False
    then have c: "c \<le> length pre" by simp
    then have t: "take c ?files = take c pre" and d: "drop c ?files = drop c pre @ f # post"
      by simp_all
    have "\<forall>g\<in>set (take c ?files). jobSucceeds w bp g"
      unfolding t using less.prems by (meson in_set_takeD)
    from runBatch_all_succeed[OF this, of st] obtain st1 where
      1: "runBatch w bp st (take c ?files) = (None, st1)"
      "launched st1 = launched st @ take c ?files" "reports st1 = reports st"
      by blast
    have "length (drop c pre) < length pre" using c assms(2) by simp
    moreover have "\<forall>p\<in>set (drop c pre). jobSucceeds w bp p"
      using less.prems by (meson in_set_dropD)
    ultimately obtain e st' where
      2: "runBatches w bp st1 (groups c (drop c pre @ f # post)) = (Some e, st')"
      "\<exists>g\<in>set (take c (drop (length (drop c pre) div c * c) (drop c pre @ f # post))).
          processFile w bp g = Inl e"
      "launched st' = launched st1 @ take ((length (drop c pre) div c + 1) * c) (drop c pre @ f # post)"
      "reports st' = reports st1"
      using less.hyps[of "drop c pre" st1] by blast
    have k: "length (drop c pre) div c + 1 = length pre div c"
      using c assms(2) le_div_geq[of c "length pre"] by simp
    have k2: "length (drop c pre) div c * c + c = length pre div c * c"
      unfolding k[symmetric] by simp
    have a: "take c (drop (length (drop c pre) div c * c) (drop c pre @ f # post)) =
             take c (drop (length pre div c * c) ?files)"
    proof -
      have "take c (drop (length (drop c pre) div c * c) (drop c pre @ f # post)) =
            take c (drop (length (drop c pre) div c * c) (drop c ?files))"
        by (simp only: d)
      also have "\<dots> = take c (drop (length (drop c pre) div c * c + c) ?files)"
        by (simp only: drop_drop)
      finally show ?thesis by (simp only: k2)
    qed
    have b: "take c ?files @ take ((length (drop c pre) div c + 1) * c) (drop c pre @ f # post) =
             take ((length pre div c + 1) * c) ?files"
    proof -
      have "take c ?files @ take (length pre div c * c) (drop c ?files) =
            take (c + length pre div c * c) ?files"
        by (simp only: take_add)
      moreover have "c + length pre div c * c = (length pre div c + 1) * c" by simp
      ultimately show ?thesis by (simp only: k d)
    qed
    from 1(1) 2(1) have "runBatches w bp st (groups c ?files) = (Some e, st')"
      unfolding g d by simp
    moreover from 2(2) have "\<exists>g\<in>set (take c (drop (length pre div c * c) ?files)). processFile w bp g = Inl e"
      unfolding a .
    moreover from 1(2) 2(3) have "launched st' = launched st @ take ((length pre div c + 1) * c) ?files"
      unfolding b[symmetric] by simp
    moreover from 1(3) 2(4) have "reports st' = reports st" by simp
    ultimately show ?thesis by blast
  qed
qed

text \<open>
  Claim C3.  Without \<^verbatim>\<open>continueOnError\<close>, with a positive concurrency \<open>c\<close> and an
  output directory that can be created, let the first job that fails be the one after the
  jobs \<open>pre\<close>, which all succeed.  Then \<^verbatim>\<open>processFiles\<close> throws: the error is that of
  a job of the failing group (the first of them to fail in completion order rejects
  \<^verbatim>\<open>Promise.all\<close>).  The jobs launched are exactly those of the groups up to and
  including the failing group, that is the first \<open>(length pre div c + 1) * c\<close> files:
  the whole failing group has been launched and may finish, no later group is launched.
  No report is written.
\<close>

theorem abort_on_first_failure:
  assumes "\<not> continueOnError bp" and "0 < concurrency bp" and "fs_mkdir w (outputDir bp) = None"
    and "\<forall>p\<in>set pre. jobSucceeds w bp p" and "\<not> jobSucceeds w bp f"
  shows "\<exists>e st. processFiles w bp (pre @ f # post) = Some (Inl e, st) \<and>
           (\<exists>g\<in>set (take (nat (concurrency bp))
                        (drop (length pre div nat (concurrency bp) * nat (concurrency bp))
                           (pre @ f # post))).
               processFile w bp g = Inl e) \<and>
           launched st =
             take ((length pre div nat (concurrency bp) + 1) * nat (concurrency bp)) (pre @ f # post) \<and>
           reports st = []"
proof -
  let ?c = "nat (concurrency bp)"
  let ?st0 = "start\<lparr>events := [Mkdir (outputDir bp)]\<rparr>"
  have c: "0 < ?c" using assms(2) by simp
  have cb: "createBatches (pre @ f # post) (concurrency bp) = Some (groups ?c (pre @ f # post))"
    using assms(2) by (rule createBatches_returns)
  from runBatches_abort[OF assms(1) c assms(4,5), of ?st0 post] obtain e st where
    r: "runBatches w bp ?st0 (groups ?c (pre @ f # post)) = (Some e, st)"
    and g: "\<exists>g\<in>set (take ?c (drop (length pre div ?c * ?c) (pre @ f # post))). processFile w bp g = Inl e"
    and l: "launched st = launched ?st0 @ take ((length pre div ?c + 1) * ?c) (pre @ f # post)"
    and p: "reports st = reports ?st0"
    by blast
  have "processFiles w bp (pre @ f # post) = Some (Inl e, st)"
    using assms(3) cb r by (simp add: processFiles_def)
  moreover have "launched ?st0 = []" "reports ?st0 = []"
    by (simp_all add: launched_def reports_def)
  ultimately show ?thesis using g l p by auto
qed

theorem abort_on_first_failure_witness:
  "\<not> continueOnError demo_strict \<and> 0 < concurrency demo_strict \<and>
   fs_mkdir demo (outputDir demo_strict) = None \<and>
   (\<exists>st. processFiles demo demo_strict demo_strict_files =
            Some (Inl (Error ''Transcription error: Command failed''), st) \<and>
         launched st = [''a.mp3'', ''b.mp3'', ''c.mp3'', ''bad.mp3''] \<and> reports st = [])"
proof -
  have h1: "\<not> continueOnError demo_strict" by (simp add: demo_strict_def BatchProcessor_def)
  have h2: "0 < concurrency demo_strict" by (simp add: demo_strict_def BatchProcessor_def)
  have h3: "fs_mkdir demo (outputDir demo_strict) = None" by (simp add: demo_def)
  have h4: "\<forall>p\<in>set [''a.mp3'', ''b.mp3'', ''c.mp3'']. jobSucceeds demo demo_strict p"
    by code_simp
  have h5: "\<not> jobSucceeds demo demo_strict ''bad.mp3''" by code_simp
  have f: "[''a.mp3'', ''b.mp3'', ''c.mp3''] @ ''bad.mp3'' # [''e.mp3''] = demo_strict_files"
    by (simp add: demo_strict_files_def)
  have c: "nat (concurrency demo_strict) = 2" by (simp add: demo_strict_def BatchProcessor_def)
  have e: "map_option fst (processFiles demo demo_strict demo_strict_files) =
             Some (Inl (Error ''Transcription error: Command failed''))"
    by code_simp
  from abort_on_first_failure[OF h1 h2 h3 h4 h5, of "[''e.mp3'']"] obtain e st where
    p: "processFiles demo demo_strict demo_strict_files = Some (Inl e, st)"
    and l: "launched st = take ((length [''a.mp3'', ''b.mp3'', ''c.mp3''] div 2 + 1) * 2) demo_strict_files"
    and r: "reports st = []"
    unfolding f c by blast
  from e p have "e = Error ''Transcription error: Command failed''" by simp
  moreover from l have "launched st = [''a.mp3'', ''b.mp3'', ''c.mp3'', ''bad.mp3'']"
    by (simp add: demo_strict_files_def)
  ultimately show ?thesis using h1 h2 h3 p r by simp
qed

section \<open>Merging is idempotent\<close>

lemma map_of_upsert: "map_of (upsert name e d) = (map_of d)(name \<mapsto> e)"
  by (induction d) (auto simp: fun_eq_iff)


lemma filter_upsert:
  assumes "\<not> P name"
  shows "filter P (map fst (upsert name e d)) = filter P (map fst d)"
  using assms by (induction d) auto

lemma readEntry_upsert: "name \<noteq> file \<Longrightarrow> readEntry (upsert name e d) file = readEntry d file"
  by (simp add: readEntry_def map_of_upsert)

lemma collectTranscripts_upsert:
  assumes "name \<notin> set files"
  shows "collectTranscripts w (upsert name e d) files = collectTranscripts w d files"
  using assms by (induction files) (simp_all add: readEntry_upsert cong: sum.case_cong)





text \<open>A run that writes to a name that \<^verbatim>\<open>*.json\<close> does not match, as the default
  \<^verbatim>\<open>merged_transcript.txt\<close>, leaves its own inputs unchanged.\<close>

lemma merge_keeps_inputs:
  assumes "\<not> glob_match w ''*.json'' outputFile"
    and "mergeTranscripts w bp outputFile d = (r, d1)"
  shows "jsonInputs w d1 = jsonInputs w d"
proof -
  have "d1 = d \<or> (\<exists>c. d1 = upsert outputFile (File c) d)"
    using assms(2)
    by (auto simp: mergeTranscripts_def Let_def writeEntry_def split: sum.splits option.splits entry.splits)
  then show ?thesis
  proof
    assume "d1 = d"
    then show ?thesis by simp
  next
    assume "\<exists>c. d1 = upsert outputFile (File c) d"
    then obtain c where d1: "d1 = upsert outputFile (File c) d" ..
    have f: "filter (glob_match w ''*.json'') (map fst d1) = filter (glob_match w ''*.json'') (map fst d)"
      unfolding d1 using assms(1) by (rule filter_upsert)
    have "readEntry d1 name = readEntry d name"
      if "name \<in> set (filter (glob_match w ''*.json'') (map fst d))" for name
    proof -
      from that assms(1) have "outputFile \<noteq> name" by auto
      then show ?thesis unfolding d1 by (rule readEntry_upsert)
    qed
    then show ?thesis by (simp add: jsonInputs_def f)
  qed
qed



text \<open>An output name that \<^verbatim>\<open>*.json\<close> matches makes the merged file an input of the
  next run, which then fails to parse it.\<close>

lemma merge_into_json_changes_inputs:
  "mergeTranscripts demo demo_bp ''all.json'' demo_dir =
     (Inr ''./output/all.json'', demo_dir @ [(''all.json'', File demo_merged)]) \<and>
   jsonInputs demo (demo_dir @ [(''all.json'', File demo_merged)]) \<noteq> jsonInputs demo demo_dir \<and>
   mergeTranscripts demo demo_bp ''all.json'' (demo_dir @ [(''all.json'', File demo_merged)]) =
     (Inl (SyntaxError ''Unexpected token''), demo_dir @ [(''all.json'', File demo_merged)])"
  by code_simp

end
